theory Spec2Isabelle
  imports Main "HOL-Library.Word" "HOL-Library.Multiset" "HOL-Library.Sublist"
begin

text \<open>
  The runtime of the typed fetch client: the path template resolver \<open>fillPath\<close>, the
  choice of the transport \<open>getFetch\<close>, the hook dispatch chain \<open>createHook\<close> and
  \<open>getOpenFetchHooks\<close>, and the client factory \<open>createOpenFetch\<close>. The functions are
  embedded as they are written; what they call of the language (\<open>String\<close>,
  \<open>encodeURIComponent\<close>, \<open>String.prototype.replace\<close>, promises) follows ECMA-262.
  The definitions come first, then the notions the properties are stated with, then the
  lemmas and the properties themselves.
\<close>

section \<open>JavaScript strings and the built-ins that \<open>fillPath\<close> calls\<close>

text \<open>
  A JavaScript string is a sequence of 16-bit code units. \<open>str\<close> turns an ASCII
  literal of the source text into such a sequence.
\<close>

type_synonym code_unit = "16 word"
type_synonym jsstring = "code_unit list"

definition str :: "string \<Rightarrow> jsstring" where
  "str cs = map of_char cs"

datatype error = URIError

text \<open>
  The values a path parameter takes at the public interface: the generated operation
  types give path parameters the types of the OpenAPI schema, which are strings,
  Numbers, Booleans, null and arrays of them; a missing value is \<open>undefined\<close>.

  A Number is given by what \<open>Number::toString\<close> of ECMA-262 reads of it: it is NaN,
  one of the two infinities, or a finite Number \<open>Finite s n\<close>, given by the integers
  \<open>s\<close> and \<open>n\<close> of its shortest decimal form: the Number is \<open>s\<close> times ten to the
  power \<open>n - k\<close>, where \<open>k\<close> is the number of digits of \<open>s\<close>, and has the sign of
  \<open>s\<close>; \<open>s = 0\<close> is the Number zero of either sign.
\<close>

datatype number =
    NaN
  | PositiveInfinity
  | NegativeInfinity
  | Finite int int

text \<open>
  \<open>JSNumber n\<close> is the integral Number \<open>sint n\<close>: every integer of 54 bits, from
  \<open>-(2^53)\<close> to \<open>2^53 - 1\<close>, is a Number, and its string form is its decimal numeral.
  \<open>JSDouble x\<close> is the Number \<open>x\<close>, integral or not. Objects other than arrays are not
  values of the model: \<open>String\<close> runs their own \<open>toString\<close> and \<open>valueOf\<close> methods.
\<close>

datatype jsvalue =
    JSString jsstring
  | JSNumber "54 word"
  | JSDouble number
  | JSBoolean bool
  | JSNull
  | JSUndefined
  | JSArray "jsvalue list"

definition digitChar :: "nat \<Rightarrow> code_unit" where
  "digitChar d = str ''0123456789'' ! (d mod 10)"

text \<open>The decimal numeral of an integer.\<close>

function decimal :: "int \<Rightarrow> jsstring" where
  "decimal n = (if n < 0 then str ''-'' @ decimal (- n)
                else if n < 10 then [digitChar (nat n)]
                else decimal (n div 10) @ [digitChar (nat (n mod 10))])"
  by pat_completeness auto
termination
  by (relation "measure (\<lambda>n. if n < 0 then nat (- n) + 1 else nat n)") auto

declare decimal.simps [simp del]

text \<open>
  \<open>Number::toString\<close> of ECMA-262 with radix 10: with the \<open>k\<close> digits of \<open>s\<close> and
  the decimal point after the \<open>n\<close>-th digit, the digits are written in positional
  notation when \<open>-5 \<le> n \<le> 21\<close> and with an exponent otherwise.
\<close>

fun NumberToString :: "number \<Rightarrow> jsstring" where
  "NumberToString NaN = str ''NaN''"
| "NumberToString PositiveInfinity = str ''Infinity''"
| "NumberToString NegativeInfinity = str ''-Infinity''"
| "NumberToString (Finite s n) =
     (if s = 0 then str ''0''
      else (if s < 0 then str ''-'' else []) @
        (let digits = decimal \<bar>s\<bar>; k = int (length digits) in
         if - 5 \<le> n \<and> n \<le> 21 then
           (if k \<le> n then digits @ replicate (nat (n - k)) 0x30
            else if 0 < n then take (nat n) digits @ str ''.'' @ drop (nat n) digits
            else str ''0.'' @ replicate (nat (- n)) 0x30 @ digits)
         else
           (let exponent = (if n < 0 then str ''-'' else str ''+'') @ decimal \<bar>n - 1\<bar> in
            if k = 1 then digits @ str ''e'' @ exponent
            else take 1 digits @ str ''.'' @ drop 1 digits @ str ''e'' @ exponent)))"

text \<open>The strings of the elements of an array with a comma between them.\<close>

fun joinComma :: "jsstring list \<Rightarrow> jsstring" where
  "joinComma [] = []"
| "joinComma [x] = x"
| "joinComma (x # y # xs) = x @ str '','' @ joinComma (y # xs)"

text \<open>
  \<open>String(v)\<close>: ToString of ECMA-262. The string of an array is that of
  \<open>Array.prototype.join\<close>: the strings of its elements with a comma between them,
  where an element that is null or undefined gives the empty string.
\<close>

fun ToString :: "jsvalue \<Rightarrow> jsstring" where
  "ToString (JSString s) = s"
| "ToString (JSNumber n) = decimal (sint n)"
| "ToString (JSDouble x) = NumberToString x"
| "ToString (JSBoolean b) = (if b then str ''true'' else str ''false'')"
| "ToString JSNull = str ''null''"
| "ToString JSUndefined = str ''undefined''"
| "ToString (JSArray vs) =
     joinComma (map (\<lambda>v. if v = JSNull \<or> v = JSUndefined then [] else ToString v) vs)"

subsection \<open>\<open>encodeURIComponent\<close>\<close>

text \<open>
  The unescaped set of \<open>encodeURIComponent\<close>: ASCII letters, decimal digits and
  the marks \<open>- _ . ! ~ * ' ( )\<close>.
\<close>

definition uriUnescaped :: "code_unit \<Rightarrow> bool" where
  "uriUnescaped C \<longleftrightarrow>
     (0x41 \<le> C \<and> C \<le> 0x5A) \<or> (0x61 \<le> C \<and> C \<le> 0x7A) \<or> (0x30 \<le> C \<and> C \<le> 0x39) \<or>
     C \<in> {0x2D, 0x5F, 0x2E, 0x21, 0x7E, 0x2A, 0x27, 0x28, 0x29}"

definition isLeadingSurrogate :: "code_unit \<Rightarrow> bool" where
  "isLeadingSurrogate C \<longleftrightarrow> 0xD800 \<le> C \<and> C \<le> 0xDBFF"

definition isTrailingSurrogate :: "code_unit \<Rightarrow> bool" where
  "isTrailingSurrogate C \<longleftrightarrow> 0xDC00 \<le> C \<and> C \<le> 0xDFFF"

record CodePointRecord =
  CodePoint :: nat
  CodeUnitCount :: nat
  IsUnpairedSurrogate :: bool

text \<open>\<open>CodePointAt\<close> of ECMA-262, read at the head of a non-empty rest of the string.\<close>

fun CodePointAt :: "code_unit \<Rightarrow> jsstring \<Rightarrow> CodePointRecord" where
  "CodePointAt first rest =
     (if \<not> isLeadingSurrogate first \<and> \<not> isTrailingSurrogate first
      then \<lparr>CodePoint = unat first, CodeUnitCount = 1, IsUnpairedSurrogate = False\<rparr>
      else if isTrailingSurrogate first \<or> rest = []
      then \<lparr>CodePoint = unat first, CodeUnitCount = 1, IsUnpairedSurrogate = True\<rparr>
      else if \<not> isTrailingSurrogate (hd rest)
      then \<lparr>CodePoint = unat first, CodeUnitCount = 1, IsUnpairedSurrogate = True\<rparr>
      else \<lparr>CodePoint = (unat first - 0xD800) * 0x400 + (unat (hd rest) - 0xDC00) + 0x10000,
            CodeUnitCount = 2, IsUnpairedSurrogate = False\<rparr>)"

text \<open>The UTF-8 octets of a code point.\<close>

definition utf8 :: "nat \<Rightarrow> nat list" where
  "utf8 cp =
     (if cp < 0x80 then [cp]
      else if cp < 0x800 then [0xC0 + cp div 0x40, 0x80 + cp mod 0x40]
      else if cp < 0x10000
      then [0xE0 + cp div 0x1000, 0x80 + cp div 0x40 mod 0x40, 0x80 + cp mod 0x40]
      else [0xF0 + cp div 0x40000, 0x80 + cp div 0x1000 mod 0x40,
            0x80 + cp div 0x40 mod 0x40, 0x80 + cp mod 0x40])"

definition hexDigit :: "nat \<Rightarrow> code_unit" where
  "hexDigit d = str ''0123456789ABCDEF'' ! (d mod 16)"

definition percent :: "nat \<Rightarrow> jsstring" where
  "percent octet = [0x25, hexDigit (octet div 16), hexDigit octet]"

definition emit :: "jsstring \<Rightarrow> error + jsstring \<Rightarrow> error + jsstring" where
  "emit R later = (case later of Inl e \<Rightarrow> Inl e | Inr S \<Rightarrow> Inr (R @ S))"

text \<open>
  \<open>Encode\<close> of ECMA-262 with the unescaped set of \<open>encodeURIComponent\<close>: an
  unescaped code unit is copied, any other code point is written as the percent-encoded
  octets of its UTF-8 form, and an unpaired surrogate throws a URIError.
\<close>

function Encode :: "jsstring \<Rightarrow> error + jsstring" where
  "Encode [] = Inr []"
| "Encode (C # rest) =
     (if uriUnescaped C then emit [C] (Encode rest)
      else let cp = CodePointAt C rest in
        if IsUnpairedSurrogate cp then Inl URIError
        else emit (concat (map percent (utf8 (CodePoint cp))))
               (Encode (drop (CodeUnitCount cp - 1) rest)))"
  by pat_completeness auto
termination
  by (relation "measure length") auto

definition encodeURIComponent :: "jsstring \<Rightarrow> error + jsstring" where
  "encodeURIComponent s = Encode s"

subsection \<open>\<open>String.prototype.replace\<close> with a string pattern\<close>

text \<open>The index of the first occurrence of the search string, from position 0.\<close>

fun StringIndexOf :: "jsstring \<Rightarrow> jsstring \<Rightarrow> nat option" where
  "StringIndexOf [] searchValue = (if searchValue = [] then Some 0 else None)"
| "StringIndexOf (c # cs) searchValue =
     (if prefix searchValue (c # cs) then Some 0
      else map_option Suc (StringIndexOf cs searchValue))"

text \<open>
  \<open>GetSubstitution\<close> of ECMA-262 for a string pattern (no captures): in the
  replacement text \<open>$$\<close> is a dollar sign, \<open>$&\<close> the matched text, \<open>$`\<close> the text
  before the match and \<open>$'\<close> the text after it; every other code unit stands for
  itself.
\<close>

fun GetSubstitution :: "jsstring \<Rightarrow> jsstring \<Rightarrow> nat \<Rightarrow> jsstring \<Rightarrow> jsstring" where
  "GetSubstitution matched string position [] = []"
| "GetSubstitution matched string position [c] = [c]"
| "GetSubstitution matched string position (c # d # templ) =
     (if c = 0x24 \<and> d = 0x24 then 0x24 # GetSubstitution matched string position templ
      else if c = 0x24 \<and> d = 0x60
      then take position string @ GetSubstitution matched string position templ
      else if c = 0x24 \<and> d = 0x26
      then matched @ GetSubstitution matched string position templ
      else if c = 0x24 \<and> d = 0x27
      then drop (min (position + length matched) (length string)) string
             @ GetSubstitution matched string position templ
      else c # GetSubstitution matched string position (d # templ))"

definition replace :: "jsstring \<Rightarrow> jsstring \<Rightarrow> jsstring \<Rightarrow> jsstring" where
  "replace string searchValue replaceValue =
     (case StringIndexOf string searchValue of
        None \<Rightarrow> string
      | Some position \<Rightarrow>
          take position string
          @ GetSubstitution searchValue string position replaceValue
          @ drop (position + length searchValue) string)"

section \<open>The path template resolver\<close>

text \<open>
  \<open>params\<close> is the parameter object as \<open>Object.entries\<close> lists it: its own
  properties in property order, each key once.
\<close>

type_synonym params = "(jsstring \<times> jsvalue) list"

fun fillPath_loop :: "jsstring \<Rightarrow> params \<Rightarrow> error + jsstring" where
  "fillPath_loop path [] = Inr path"
| "fillPath_loop path ((k, v) # entries) =
     (case encodeURIComponent (ToString v) of
        Inl e \<Rightarrow> Inl e
      | Inr r \<Rightarrow> fillPath_loop (replace path (str ''{'' @ k @ str ''}'') r) entries)"

text \<open>The parameter \<open>params\<close> defaults to the empty object when it is undefined.\<close>

definition fillPath :: "jsstring \<Rightarrow> params option \<Rightarrow> error + jsstring" where
  "fillPath path params = fillPath_loop path (case params of None \<Rightarrow> [] | Some p \<Rightarrow> p)"

section \<open>Fetch options\<close>

text \<open>
  A property of an options object: the object has no such key, the key holds
  \<open>undefined\<close>, or it holds a value. Spreading an object copies its own keys, also
  those that hold \<open>undefined\<close>.
\<close>

datatype 'a property = Absent | Undefined | Value 'a

text \<open>A hook field of the options holds one function or a list of functions.\<close>

datatype 'h hookField = HookFn 'h | HookList "'h list"

datatype FetchHookName = onRequest | onRequestError | onResponse | onResponseError

fun hookName :: "FetchHookName \<Rightarrow> string" where
  "hookName onRequest = ''onRequest''"
| "hookName onRequestError = ''onRequestError''"
| "hookName onResponse = ''onResponse''"
| "hookName onResponseError = ''onResponseError''"

text \<open>
  The options object, with the fields the client reads: \<open>baseURL\<close>, the path
  parameters \<open>path\<close> and the four hook fields (\<open>hookOf opts hook\<close> is
  \<open>opts[hook]\<close>). Every other key (the request's verb, body, headers, query and so on)
  is passed through; \<open>other\<close> holds them. \<open>'h\<close> is the type of the hook functions.
\<close>

record ('h, 'x) FetchOptions =
  baseURL :: "jsstring property"
  path :: "params property"
  hookOf :: "FetchHookName \<Rightarrow> 'h hookField property"
  other :: "string \<rightharpoonup> 'x"

definition emptyOptions :: "('h, 'x) FetchOptions" where
  "emptyOptions = \<lparr>baseURL = Absent, path = Absent, hookOf = (\<lambda>hook. Absent), other = Map.empty\<rparr>"

definition override :: "'a property \<Rightarrow> 'a property \<Rightarrow> 'a property" where
  "override x y = (case y of Absent \<Rightarrow> x | _ \<Rightarrow> y)"

text \<open>The object spread \<open>{...a, ...b}\<close>: the keys of \<open>a\<close>, then the keys of \<open>b\<close> over them.\<close>

definition spread :: "('h, 'x) FetchOptions \<Rightarrow> ('h, 'x) FetchOptions \<Rightarrow> ('h, 'x) FetchOptions" where
  "spread a b =
     \<lparr>baseURL = override (baseURL a) (baseURL b),
      path = override (path a) (path b),
      hookOf = (\<lambda>hook. override (hookOf a hook) (hookOf b hook)),
      other = other a ++ other b\<rparr>"

section \<open>Asynchronous calls\<close>

text \<open>
  JavaScript runs one turn at a time. \<open>'s\<close> is the state the hooks read and write and
  \<open>'e\<close> the values they throw. A promise is fulfilled, rejected, or pending; a pending
  promise holds what its next turn does to the state and the promise it is afterwards.
  A call of a function runs the function's first turn at once: it throws, or it returns
  a promise (a function that returns no promise returns \<open>Fulfilled\<close>).
\<close>

datatype ('s, 'e) promise =
    Fulfilled
  | Rejected 'e
  | Pending "'s \<Rightarrow> 's \<times> ('s, 'e) promise"

datatype ('s, 'e) completion = Threw 'e | Returned "('s, 'e) promise"

type_synonym ('s, 'e) call = "'s \<Rightarrow> ('s, 'e) completion \<times> 's"

text \<open>
  What awaiting does. The schedule lists the turns the event loop gives to the pending
  promises of this call, in the order they happen; an entry names the promise that is
  resumed when several are pending together. Awaiting takes turns from the schedule
  until the promise is settled. When the schedule ends first the promise never settles
  and the awaiting function stalls for ever.
\<close>

datatype 'e settled = Resolved | Failed 'e | Stalled

type_synonym ('s, 'e) run = "nat list \<Rightarrow> 's \<Rightarrow> 'e settled \<times> nat list \<times> 's"

fun await :: "('s, 'e) promise \<Rightarrow> ('s, 'e) run" where
  "await Fulfilled sched s = (Resolved, sched, s)"
| "await (Rejected e) sched s = (Failed e, sched, s)"
| "await (Pending k) [] s = (Stalled, [], s)"
| "await (Pending k) (i # sched) s = (case k s of (s', p) \<Rightarrow> await p sched s')"

text \<open>
  \<open>await f(x)\<close>: the call is made, then its promise is awaited; a throw of the call is
  a failure of the awaiting function.
\<close>

definition awaitCall :: "('s, 'e) call \<Rightarrow> ('s, 'e) run" where
  "awaitCall c sched s =
     (case c s of (Threw e, s') \<Rightarrow> (Failed e, sched, s') | (Returned p, s') \<Rightarrow> await p sched s')"

text \<open>
  \<open>baseHook.map(h => h(ctx))\<close>: the functions are called one after the other in the
  same turn; a throw ends the \<open>map\<close>.
\<close>

fun callEach :: "('s, 'e) call list \<Rightarrow> 's \<Rightarrow> ('e + ('s, 'e) promise list) \<times> 's" where
  "callEach [] s = (Inr [], s)"
| "callEach (c # cs) s =
     (case c s of
        (Threw e, s') \<Rightarrow> (Inl e, s')
      | (Returned p, s') \<Rightarrow>
          (case callEach cs s' of
             (Inl e, s'') \<Rightarrow> (Inl e, s'')
           | (Inr ps, s'') \<Rightarrow> (Inr (p # ps), s'')))"

fun isFulfilled :: "('s, 'e) promise \<Rightarrow> bool" where
  "isFulfilled Fulfilled = True"
| "isFulfilled _ = False"

fun firstRejected :: "('s, 'e) promise list \<Rightarrow> 'e option" where
  "firstRejected [] = None"
| "firstRejected (Rejected e # ps) = Some e"
| "firstRejected (p # ps) = firstRejected ps"

text \<open>
  \<open>Promise.all\<close>: rejected as soon as one of the promises is rejected, fulfilled when
  all of them are fulfilled, and pending otherwise.
\<close>

definition allState :: "('s, 'e) promise list \<Rightarrow> 'e settled option" where
  "allState ps =
     (case firstRejected ps of
        Some e \<Rightarrow> Some (Failed e)
      | None \<Rightarrow> if list_all isFulfilled ps then Some Resolved else None)"

text \<open>
  The promises of a \<open>Promise.all\<close> run together: each turn of the schedule resumes the
  promise it names, until the \<open>Promise.all\<close> is settled. \<open>runAll\<close> returns the promises
  as they are then.
\<close>

fun runAll ::
  "('s, 'e) promise list \<Rightarrow> nat list \<Rightarrow> 's \<Rightarrow> ('s, 'e) promise list \<times> nat list \<times> 's" where
  "runAll ps [] s = (ps, [], s)"
| "runAll ps (i # sched) s =
     (if allState ps \<noteq> None then (ps, i # sched, s)
      else if i < length ps then
        (case ps ! i of
           Pending k \<Rightarrow> (case k s of (s', p) \<Rightarrow> runAll (ps[i := p]) sched s')
         | _ \<Rightarrow> runAll ps sched s)
      else runAll ps sched s)"

definition awaitAll :: "('s, 'e) promise list \<Rightarrow> ('s, 'e) run" where
  "awaitAll ps sched s =
     (case runAll ps sched s of
        (ps', sched', s') \<Rightarrow>
          (case allState ps' of None \<Rightarrow> Stalled | Some r \<Rightarrow> r, sched', s'))"

text \<open>\<open>await Promise.all(hs.map(h => h(ctx)))\<close>.\<close>

definition awaitPromiseAll :: "('s, 'e) call list \<Rightarrow> ('s, 'e) run" where
  "awaitPromiseAll calls sched s =
     (case callEach calls s of
        (Inl e, s') \<Rightarrow> (Failed e, sched, s')
      | (Inr ps, s') \<Rightarrow> awaitAll ps sched s')"

text \<open>
  Two statements of an async function one after the other: the second starts when the
  first has resolved; a failure or a stall of the first ends the function.
\<close>

definition andThen :: "('s, 'e) run \<Rightarrow> ('s, 'e) run \<Rightarrow> ('s, 'e) run" where
  "andThen first second sched s =
     (case first sched s of
        (Resolved, sched', s') \<Rightarrow> second sched' s'
      | (Failed e, sched', s') \<Rightarrow> (Failed e, sched', s')
      | (Stalled, sched', s') \<Rightarrow> (Stalled, sched', s'))"

definition skip :: "('s, 'e) run" where
  "skip sched s = (Resolved, sched, s)"

section \<open>The hook dispatch chain\<close>

text \<open>
  The hook registry is an object of the \<open>hookable\<close> library, which is not part of the
  repository; the client only calls its method \<open>callHook(name, ctx)\<close>. The promise of
  this call stands for the completion of all the subscribers of the channel \<open>name\<close>.
\<close>

record ('c, 's, 'e) Hookable =
  callHook :: "string \<Rightarrow> 'c \<Rightarrow> ('s, 'e) call"

text \<open>
  \<open>createHook\<close> returns an async function of the context; it is given by what awaiting
  it does. \<open>if (hookIdentifier)\<close> holds for a string that is not empty, and
  \<open>if (baseHook)\<close> for a function or a list.
\<close>

definition createHook ::
  "('c, 's, 'e) Hookable \<Rightarrow> ('c \<Rightarrow> ('s, 'e) call, 'x) FetchOptions \<Rightarrow> FetchHookName \<Rightarrow>
   string option \<Rightarrow> 'c \<Rightarrow> ('s, 'e) run" where
  "createHook hooks baseOpts hook hookIdentifier ctx =
     andThen (awaitCall (callHook hooks (''openFetch:'' @ hookName hook) ctx))
    (andThen
       (case hookIdentifier of
          None \<Rightarrow> skip
        | Some i \<Rightarrow>
            if i = [] then skip
            else awaitCall (callHook hooks (''openFetch:'' @ hookName hook @ '':'' @ i) ctx))
       (case hookOf baseOpts hook of
          Value (HookList hs) \<Rightarrow> awaitPromiseAll (map (\<lambda>h. h ctx) hs)
        | Value (HookFn h) \<Rightarrow> awaitCall (h ctx)
        | _ \<Rightarrow> skip))"

definition openFetchHooks :: "FetchHookName list" where
  "openFetchHooks = [onRequest, onRequestError, onResponse, onResponseError]"

text \<open>
  The object \<open>getOpenFetchHooks\<close> returns has no key when there is no registry and
  the four hook keys otherwise; it is given as the function from the hook names to its
  properties.
\<close>

definition getOpenFetchHooks ::
  "('c, 's, 'e) Hookable option \<Rightarrow> ('c \<Rightarrow> ('s, 'e) call, 'x) FetchOptions \<Rightarrow> string option \<Rightarrow>
   FetchHookName \<Rightarrow> ('c \<Rightarrow> ('s, 'e) run) property" where
  "getOpenFetchHooks hooks baseOpts hookIdentifier =
     (case hooks of
        None \<Rightarrow> (\<lambda>hook. Absent)
      | Some registry \<Rightarrow>
          fold (\<lambda>hook acc. acc(hook := Value (createHook registry baseOpts hook hookIdentifier)))
            openFetchHooks (\<lambda>hook. Absent))"

section \<open>The client factory\<close>

text \<open>
  The hook fields of the options handed to the transport hold the hooks of the caller,
  which are functions that return a promise, or the composed hooks of \<open>createHook\<close>.
\<close>

datatype ('c, 's, 'e) installedHook =
    LocalHook "'c \<Rightarrow> ('s, 'e) call"
  | ComposedHook "'c \<Rightarrow> ('s, 'e) run"

text \<open>\<open>{...baseOpts, ...getOpenFetchHooks(hooks, baseOpts, hookIdentifier)}\<close>.\<close>

definition spreadHooks ::
  "('c \<Rightarrow> ('s, 'e) call, 'x) FetchOptions \<Rightarrow> (FetchHookName \<Rightarrow> ('c \<Rightarrow> ('s, 'e) run) property) \<Rightarrow>
   (('c, 's, 'e) installedHook, 'x) FetchOptions" where
  "spreadHooks baseOpts fetchHooks =
     \<lparr>baseURL = baseURL baseOpts,
      path = path baseOpts,
      hookOf = (\<lambda>hook. override (map_property (map_hookField LocalHook) (hookOf baseOpts hook))
                              (map_property (HookFn \<circ> ComposedHook) (fetchHooks hook))),
      other = other baseOpts\<rparr>"

text \<open>
  The first argument of \<open>createOpenFetch\<close> is an options object or a function from the
  options of the call (undefined when the client is called with a URL only) to options.
\<close>

datatype ('h, 'x) baseConfig =
    OptionsObject "('h, 'x) FetchOptions"
  | OptionsFunction "('h, 'x) FetchOptions option \<Rightarrow> ('h, 'x) FetchOptions"

text \<open>
  What the client reads from its surroundings: \<open>import.meta.server\<close> and
  \<open>globalThis.$fetch\<close>. \<open>'f\<close> is the type of a transport.
\<close>

record 'f environment =
  server :: bool
  globalFetch :: 'f

text \<open>\<open>!opts.baseURL\<close>: the key is missing, holds undefined or holds the empty string.\<close>

definition falsy :: "jsstring property \<Rightarrow> bool" where
  "falsy p = (case p of Value s \<Rightarrow> s = [] | _ \<Rightarrow> True)"

text \<open>\<open>s[0] === '/'\<close>.\<close>

definition startsWithSlash :: "jsstring \<Rightarrow> bool" where
  "startsWithSlash s = (case s of [] \<Rightarrow> False | c # cs \<Rightarrow> c = 0x2F)"

definition getFetch ::
  "'f environment \<Rightarrow> jsstring \<Rightarrow> ('h, 'x) FetchOptions \<Rightarrow> 'f option \<Rightarrow> 'f" where
  "getFetch env url opts localFetch =
     (case (server env, localFetch) of
        (True, Some lf) \<Rightarrow>
          (let isLocalFetch =
             startsWithSlash url
             \<and> (falsy (baseURL opts)
                \<or> (case baseURL opts of Value b \<Rightarrow> startsWithSlash b | _ \<Rightarrow> False))
           in if isLocalFetch then lf else globalFetch env)
      | _ \<Rightarrow> globalFetch env)"

text \<open>
  The value the client assigns to \<open>baseOpts\<close> first: what the function returns, or the
  spread of the options object and the options of the call.
\<close>

definition effectiveOptions ::
  "('h, 'x) baseConfig \<Rightarrow> ('h, 'x) FetchOptions option \<Rightarrow> ('h, 'x) FetchOptions" where
  "effectiveOptions options baseOpts =
     (case options of
        OptionsFunction f \<Rightarrow> f baseOpts
      | OptionsObject obj \<Rightarrow>
          spread obj (case baseOpts of None \<Rightarrow> emptyOptions | Some given \<Rightarrow> given))"

text \<open>\<open>opts?.path\<close>, as the argument of \<open>fillPath\<close>.\<close>

definition pathParams :: "('h, 'x) FetchOptions \<Rightarrow> params option" where
  "pathParams opts = (case path opts of Value p \<Rightarrow> Some p | _ \<Rightarrow> None)"

text \<open>
  The client: it returns what the transport returns (\<open>'r\<close>, a promise), or throws what
  \<open>fillPath\<close> throws.
\<close>

definition createOpenFetch ::
  "(jsstring \<Rightarrow> (('c, 's, 'e) installedHook, 'x) FetchOptions \<Rightarrow> 'r) environment \<Rightarrow>
   ('c \<Rightarrow> ('s, 'e) call, 'x) baseConfig \<Rightarrow>
   (jsstring \<Rightarrow> (('c, 's, 'e) installedHook, 'x) FetchOptions \<Rightarrow> 'r) option \<Rightarrow>
   string option \<Rightarrow> ('c, 's, 'e) Hookable option \<Rightarrow>
   jsstring \<Rightarrow> ('c \<Rightarrow> ('s, 'e) call, 'x) FetchOptions option \<Rightarrow> error + 'r" where
  "createOpenFetch env options localFetch hookIdentifier hooks url callOptions =
     (let baseOpts = effectiveOptions options callOptions;
          opts = spreadHooks baseOpts (getOpenFetchHooks hooks baseOpts hookIdentifier);
          fetch = getFetch env url opts localFetch
      in case fillPath url (pathParams opts) of
           Inl e \<Rightarrow> Inl e
         | Inr filled \<Rightarrow> Inr (fetch filled opts))"

section \<open>Notions used to state the properties of \<open>fillPath\<close>\<close>

text \<open>
  A placeholder is the text \<open>{k}\<close> whose name \<open>k\<close> has no brace. \<open>tokens\<close> reads a
  template from left to right into its placeholders and the code units between them; a
  \<open>{\<close> that no \<open>}\<close> closes before the next brace is an ordinary code unit.
\<close>

definition braceFree :: "jsstring \<Rightarrow> bool" where
  "braceFree s \<longleftrightarrow> 0x7B \<notin> set s \<and> 0x7D \<notin> set s"

definition placeholder :: "jsstring \<Rightarrow> jsstring" where
  "placeholder k = str ''{'' @ k @ str ''}''"

datatype token = Lit code_unit | Hole jsstring

definition notBrace :: "code_unit \<Rightarrow> bool" where
  "notBrace x \<longleftrightarrow> x \<noteq> 0x7B \<and> x \<noteq> 0x7D"

function tokens :: "jsstring \<Rightarrow> token list" where
  "tokens [] = []"
| "tokens (c # cs) =
     (if c = 0x7B then
        (case dropWhile notBrace cs of
           [] \<Rightarrow> Lit c # tokens cs
         | d # rest \<Rightarrow>
             if d = 0x7D then Hole (takeWhile notBrace cs) # tokens rest
             else Lit c # tokens cs)
      else Lit c # tokens cs)"
  by pat_completeness auto
termination
proof (relation "measure length", goal_cases)
  case (3 c cs d rest)
  have "length (dropWhile notBrace cs) \<le> length cs"
    by (rule length_dropWhile_le)
  with 3 show ?case by simp
qed simp_all

declare tokens.simps(2) [simp del]

fun holes :: "token list \<Rightarrow> jsstring list" where
  "holes [] = []"
| "holes (Lit c # ts) = holes ts"
| "holes (Hole k # ts) = k # holes ts"

text \<open>The names of the placeholders of a string, in the order they occur.\<close>

definition placeholders :: "jsstring \<Rightarrow> jsstring list" where
  "placeholders s = holes (tokens s)"

text \<open>
  The braces of a flat template do not nest: every \<open>{\<close> is closed by a \<open>}\<close> before
  the next \<open>{\<close> and before the end of the template.
\<close>

fun flat_from :: "bool \<Rightarrow> jsstring \<Rightarrow> bool" where
  "flat_from inside [] = (\<not> inside)"
| "flat_from inside (c # cs) =
     (if c = 0x7B then \<not> inside \<and> flat_from True cs
      else if c = 0x7D then flat_from False cs
      else flat_from inside cs)"

definition flat :: "jsstring \<Rightarrow> bool" where
  "flat s = flat_from False s"

text \<open>The number of positions at which \<open>pat\<close> occurs in a string.\<close>

fun occurrences :: "jsstring \<Rightarrow> jsstring \<Rightarrow> nat" where
  "occurrences pat [] = (if pat = [] then 1 else 0)"
| "occurrences pat (c # cs) = (if prefix pat (c # cs) then 1 else 0) + occurrences pat cs"

text \<open>
  \<open>replaceFirst pat r s\<close> is \<open>s\<close> with the first occurrence of \<open>pat\<close> replaced by the
  text \<open>r\<close> itself, and \<open>s\<close> when \<open>pat\<close> does not occur.
\<close>

fun replaceFirst :: "jsstring \<Rightarrow> jsstring \<Rightarrow> jsstring \<Rightarrow> jsstring" where
  "replaceFirst pat r [] = (if pat = [] then r else [])"
| "replaceFirst pat r (c # cs) =
     (if prefix pat (c # cs) then r @ drop (length pat) (c # cs)
      else c # replaceFirst pat r cs)"

text \<open>
  A value is encodable when \<open>encodeURIComponent\<close> of its string form returns;
  \<open>encoded v\<close> is what it returns then.
\<close>

definition encodable :: "jsvalue \<Rightarrow> bool" where
  "encodable v \<longleftrightarrow> (case encodeURIComponent (ToString v) of Inl e \<Rightarrow> False | Inr r \<Rightarrow> True)"

definition encoded :: "jsvalue \<Rightarrow> jsstring" where
  "encoded v = (case encodeURIComponent (ToString v) of Inl e \<Rightarrow> [] | Inr r \<Rightarrow> r)"

definition encodedMap :: "params \<Rightarrow> (jsstring \<rightharpoonup> jsstring)" where
  "encodedMap M = map_of (map (\<lambda>(k, v). (k, encoded v)) M)"

text \<open>
  \<open>substituteAll f T\<close> is the template \<open>T\<close> with every placeholder whose name \<open>f\<close>
  maps written as the text \<open>f\<close> gives, and every other part of \<open>T\<close> unchanged.
\<close>

fun expand :: "(jsstring \<rightharpoonup> jsstring) \<Rightarrow> token \<Rightarrow> jsstring" where
  "expand f (Lit c) = [c]"
| "expand f (Hole k) = (case f k of None \<Rightarrow> placeholder k | Some r \<Rightarrow> r)"

definition substituteAll :: "(jsstring \<rightharpoonup> jsstring) \<Rightarrow> jsstring \<Rightarrow> jsstring" where
  "substituteAll f T = concat (map (expand f) (tokens T))"

text \<open>
  The values that hold no string: Numbers, Booleans, null, undefined, and the arrays of
  such values. \<open>ascii s\<close>: every code unit of \<open>s\<close> is below 128.
\<close>

fun holdsNoString :: "jsvalue \<Rightarrow> bool" where
  "holdsNoString (JSString s) = False"
| "holdsNoString (JSArray vs) = list_all holdsNoString vs"
| "holdsNoString v = True"

definition ascii :: "jsstring \<Rightarrow> bool" where
  "ascii s \<longleftrightarrow> list_all (\<lambda>c. c < 0x80) s"

subsection \<open>Auxiliary functions of the proofs\<close>

fun render :: "token \<Rightarrow> jsstring" where
  "render (Lit c) = [c]"
| "render (Hole k) = placeholder k"

definition unparse :: "token list \<Rightarrow> jsstring" where
  "unparse ts = concat (map render ts)"

text \<open>One step of the loop of \<open>fillPath\<close>, seen on the tokens of the path.\<close>

fun subst1 :: "jsstring \<Rightarrow> jsstring \<Rightarrow> token list \<Rightarrow> token list" where
  "subst1 k r [] = []"
| "subst1 k r (Lit c # ts) = Lit c # subst1 k r ts"
| "subst1 k r (Hole k' # ts) =
     (if k' = k then map Lit r @ ts else Hole k' # subst1 k r ts)"

fun substEntry :: "jsstring \<times> jsvalue \<Rightarrow> token list \<Rightarrow> token list" where
  "substEntry (k, v) ts = subst1 k (encoded v) ts"

fun substAll :: "(jsstring \<rightharpoonup> jsstring) \<Rightarrow> token list \<Rightarrow> token list" where
  "substAll f [] = []"
| "substAll f (Lit c # ts) = Lit c # substAll f ts"
| "substAll f (Hole k # ts) =
     (case f k of None \<Rightarrow> [Hole k] | Some r \<Rightarrow> map Lit r) @ substAll f ts"

text \<open>Token lists that \<open>tokens\<close> reads back unchanged from their text.\<close>

definition normal :: "token list \<Rightarrow> bool" where
  "normal ts \<longleftrightarrow> Lit 0x7B \<notin> set ts \<and> (\<forall>k. Hole k \<in> set ts \<longrightarrow> braceFree k)"

definition uriSafe :: "jsstring \<Rightarrow> bool" where
  "uriSafe r \<longleftrightarrow> (\<forall>c\<in>set r. uriUnescaped c \<or> c = 0x25)"

section \<open>Notions used to state the properties of the client\<close>

text \<open>
  The second and the third step of the composed hook, as \<open>createHook\<close> writes them:
  the publication on the channel of the client, and the hooks of the options.
\<close>

definition clientTier ::
  "('c, 's, 'e) Hookable \<Rightarrow> FetchHookName \<Rightarrow> string option \<Rightarrow> 'c \<Rightarrow> ('s, 'e) run" where
  "clientTier hooks hook hookIdentifier ctx =
     (case hookIdentifier of
        None \<Rightarrow> skip
      | Some i \<Rightarrow>
          if i = [] then skip
          else awaitCall (callHook hooks (''openFetch:'' @ hookName hook @ '':'' @ i) ctx))"

definition localTier ::
  "('c \<Rightarrow> ('s, 'e) call, 'x) FetchOptions \<Rightarrow> FetchHookName \<Rightarrow> 'c \<Rightarrow> ('s, 'e) run" where
  "localTier baseOpts hook ctx =
     (case hookOf baseOpts hook of
        Value (HookList hs) \<Rightarrow> awaitPromiseAll (map (\<lambda>h. h ctx) hs)
      | Value (HookFn h) \<Rightarrow> awaitCall (h ctx)
      | _ \<Rightarrow> skip)"

text \<open>Options whose hook fields hold the hooks of the caller and nothing else.\<close>

definition localOnly ::
  "('c \<Rightarrow> ('s, 'e) call, 'x) FetchOptions \<Rightarrow> (('c, 's, 'e) installedHook, 'x) FetchOptions" where
  "localOnly baseOpts =
     \<lparr>baseURL = baseURL baseOpts,
      path = path baseOpts,
      hookOf = (\<lambda>hook. map_property (map_hookField LocalHook) (hookOf baseOpts hook)),
      other = other baseOpts\<rparr>"

text \<open>The base URL is absent; the base URL starts with \<open>/\<close>.\<close>

definition noBaseURL :: "('h, 'x) FetchOptions \<Rightarrow> bool" where
  "noBaseURL opts \<longleftrightarrow> baseURL opts = Absent \<or> baseURL opts = Undefined"

definition rootRelativeBase :: "('h, 'x) FetchOptions \<Rightarrow> bool" where
  "rootRelativeBase opts \<longleftrightarrow> (case baseURL opts of Value b \<Rightarrow> startsWithSlash b | _ \<Rightarrow> False)"

subsection \<open>Hooks that keep a log\<close>

text \<open>
  The state is a log. \<open>logged n\<close> is a hook that writes \<open>n:start\<close> when it is called
  and \<open>n:end\<close> in its second turn, with which it is fulfilled; \<open>failing n\<close> is rejected
  in its second turn. The registry \<open>loggedHooks\<close> answers every channel by a logged
  hook of the channel's name, and \<open>failingGlobal\<close> fails on the channel
  \<open>openFetch:onRequest\<close>.
\<close>

definition logged :: "string \<Rightarrow> unit \<Rightarrow> (string list, string) call" where
  "logged n ctx s =
     (Returned (Pending (\<lambda>s'. (s' @ [n @ '':end''], Fulfilled))), s @ [n @ '':start''])"

definition failing :: "string \<Rightarrow> unit \<Rightarrow> (string list, string) call" where
  "failing n ctx s =
     (Returned (Pending (\<lambda>s'. (s' @ [n @ '':end''], Rejected n))), s @ [n @ '':start''])"


definition failingGlobal :: "(unit, string list, string) Hookable" where
  "failingGlobal =
     \<lparr>callHook = (\<lambda>name. if name = ''openFetch:onRequest'' then failing name else logged name)\<rparr>"

definition twoLocalHooks :: "(unit \<Rightarrow> (string list, string) call, unit) FetchOptions" where
  "twoLocalHooks = emptyOptions\<lparr>hookOf := (\<lambda>hook. Value (HookList [logged ''a'', logged ''b'']))\<rparr>"


text \<open>Options whose base URL is the empty string.\<close>

definition emptyBase :: "(unit, unit) FetchOptions" where
  "emptyBase = emptyOptions\<lparr>baseURL := Value (str '''')\<rparr>"

section \<open>Lemmas\<close>

subsection \<open>The path template resolver\<close>

lemma placeholder_eq: "placeholder k = 0x7B # k @ [0x7D]"
  by (simp add: placeholder_def str_def)

lemma braceFree_notBrace: "braceFree k \<longleftrightarrow> (\<forall>x\<in>set k. notBrace x)"
  by (auto simp: braceFree_def notBrace_def)

lemma takeWhile_braceFree: "braceFree (takeWhile notBrace cs)"
  unfolding braceFree_notBrace by (auto dest: set_takeWhileD)

lemma tokens_Lit: "c \<noteq> 0x7B \<Longrightarrow> tokens (c # cs) = Lit c # tokens cs"
  by (simp add: tokens.simps(2))

lemma dropWhile_key: "braceFree k \<Longrightarrow> dropWhile notBrace (k @ 0x7D # rest) = 0x7D # rest"
  by (simp add: braceFree_notBrace dropWhile_append3 notBrace_def)

lemma takeWhile_key: "braceFree k \<Longrightarrow> takeWhile notBrace (k @ 0x7D # rest) = k"
  by (simp add: braceFree_notBrace takeWhile_append2 notBrace_def takeWhile_tail)

lemma tokens_Hole:
  "braceFree k \<Longrightarrow> tokens (0x7B # k @ 0x7D # rest) = Hole k # tokens rest"
  by (simp add: tokens.simps(2) dropWhile_key takeWhile_key)

lemma unparse_Nil [simp]: "unparse [] = []"
  by (simp add: unparse_def)

lemma unparse_Cons [simp]: "unparse (t # ts) = render t @ unparse ts"
  by (simp add: unparse_def)

lemma unparse_append [simp]: "unparse (ts @ us) = unparse ts @ unparse us"
  by (simp add: unparse_def)

lemma unparse_Lits [simp]: "unparse (map Lit r) = r"
  by (induction r) simp_all

lemma tokens_Open:
  assumes "\<not> (\<exists>k rest. braceFree k \<and> cs = k @ 0x7D # rest)"
  shows "tokens (0x7B # cs) = Lit 0x7B # tokens cs"
proof (cases "dropWhile notBrace cs")
  case Nil
  then show ?thesis by (simp add: tokens.simps(2) del: dropWhile_eq_Nil_conv)
next
  case (Cons d rest)
  have cs: "cs = takeWhile notBrace cs @ dropWhile notBrace cs" by simp
  have "d \<noteq> 0x7D"
  proof
    assume "d = 0x7D"
    with Cons cs have "cs = takeWhile notBrace cs @ 0x7D # rest" by simp
    with assms takeWhile_braceFree show False by blast
  qed
  with Cons show ?thesis by (simp add: tokens.simps(2))
qed

lemma tokens_induct [case_names Nil Lit Hole Open]:
  assumes "P []"
    and "\<And>c cs. c \<noteq> 0x7B \<Longrightarrow> P cs \<Longrightarrow> P (c # cs)"
    and "\<And>k rest. braceFree k \<Longrightarrow> P rest \<Longrightarrow> P (0x7B # k @ 0x7D # rest)"
    and "\<And>cs. \<not> (\<exists>k rest. braceFree k \<and> cs = k @ 0x7D # rest) \<Longrightarrow> P cs \<Longrightarrow> P (0x7B # cs)"
  shows "P s"
proof (induction s rule: length_induct)
  case (1 s)
  show ?case
  proof (cases s)
    case Nil
    with assms(1) show ?thesis by simp
  next
    case (Cons c cs)
    show ?thesis
    proof (cases "c = 0x7B")
      case False
      with 1 Cons assms(2) show ?thesis by simp
    next
      case True
      show ?thesis
      proof (cases "\<exists>k rest. braceFree k \<and> cs = k @ 0x7D # rest")
        case False
        with 1 Cons True assms(4) show ?thesis by simp
      next
        case ex: True
        then obtain k rest where k: "braceFree k" and cs: "cs = k @ 0x7D # rest" by blast
        from 1 Cons cs have "P rest" by simp
        with k assms(3) have "P (0x7B # k @ 0x7D # rest)" by blast
        with Cons True cs show ?thesis by simp
      qed
    qed
  qed
qed

lemma unparse_tokens: "unparse (tokens s) = s"
  by (induction s rule: tokens_induct)
     (simp_all add: tokens_Lit tokens_Hole tokens_Open placeholder_eq)

lemma tokens_Hole_braceFree: "Hole k \<in> set (tokens s) \<Longrightarrow> braceFree k"
  by (induction s rule: tokens_induct)
     (auto simp: tokens_Lit tokens_Hole tokens_Open)

lemma GetSubstitution_plain:
  "0x24 \<notin> set t \<Longrightarrow> GetSubstitution m s p t = t"
  by (induction m s p t rule: GetSubstitution.induct) auto

lemma replace_plain:
  "0x24 \<notin> set r \<Longrightarrow>
   replace s pat r =
     (case StringIndexOf s pat of None \<Rightarrow> s
      | Some i \<Rightarrow> take i s @ r @ drop (i + length pat) s)"
  by (simp add: replace_def GetSubstitution_plain split: option.splits)

lemma replaceFirst_index:
  "replaceFirst pat r s =
     (case StringIndexOf s pat of None \<Rightarrow> s
      | Some i \<Rightarrow> take i s @ r @ drop (i + length pat) s)"
  by (induction s) (auto split: option.splits)

lemma replace_replaceFirst:
  "0x24 \<notin> set r \<Longrightarrow> replace s pat r = replaceFirst pat r s"
  by (simp add: replace_plain replaceFirst_index)

lemma replaceFirst_skip:
  "0x7B \<notin> set u \<Longrightarrow> replaceFirst (0x7B # q) r (u @ s) = u @ replaceFirst (0x7B # q) r s"
  by (induction u) auto

lemma prefix_key:
  assumes "braceFree k" "braceFree k'"
  shows "prefix (k @ [0x7D]) (k' @ 0x7D # rest) \<longleftrightarrow> k = k'"
proof
  assume "prefix (k @ [0x7D]) (k' @ 0x7D # rest)"
  then obtain zs where eq: "k' @ 0x7D # rest = k @ 0x7D # zs"
    by (auto simp: prefix_def)
  have "takeWhile notBrace (k' @ 0x7D # rest) = k'" using assms(2) by (rule takeWhile_key)
  moreover have "takeWhile notBrace (k @ 0x7D # zs) = k" using assms(1) by (rule takeWhile_key)
  ultimately show "k = k'" using eq by simp
next
  assume "k = k'"
  then show "prefix (k @ [0x7D]) (k' @ 0x7D # rest)" by (simp add: prefix_def)
qed

lemma replaceFirst_tokens:
  assumes k: "braceFree k"
  shows "replaceFirst (placeholder k) r s = unparse (subst1 k r (tokens s))"
proof (induction s rule: tokens_induct)
  case Nil
  show ?case by (simp add: placeholder_eq)
next
  case (Lit c cs)
  then show ?case by (simp add: placeholder_eq tokens_Lit)
next
  case (Hole k' rest)
  show ?case
  proof (cases "k' = k")
    case True
    then show ?thesis
      using k by (simp add: placeholder_eq tokens_Hole unparse_tokens)
  next
    case False
    have np: "\<not> prefix (k @ [0x7D]) (k' @ 0x7D # rest)"
      using prefix_key[OF k Hole(1)] False by simp
    have "0x7B \<notin> set (k' @ [0x7D])" using Hole(1) by (simp add: braceFree_def)
    then have "replaceFirst (0x7B # k @ [0x7D]) r ((k' @ [0x7D]) @ rest)
        = (k' @ [0x7D]) @ replaceFirst (0x7B # k @ [0x7D]) r rest"
      by (rule replaceFirst_skip)
    with np False Hole show ?thesis
      by (simp add: placeholder_eq tokens_Hole)
  qed
next
  case (Open cs)
  have "\<not> prefix (k @ [0x7D]) cs"
  proof
    assume "prefix (k @ [0x7D]) cs"
    then obtain zs where "cs = k @ 0x7D # zs" by (auto simp: prefix_def)
    with Open(1) k show False by blast
  qed
  with Open show ?case by (simp add: placeholder_eq tokens_Open)
qed

lemma tokens_unparse: "normal ts \<Longrightarrow> tokens (unparse ts) = ts"
proof (induction ts)
  case Nil
  show ?case by simp
next
  case (Cons t ts)
  then have IH: "tokens (unparse ts) = ts" by (simp add: normal_def)
  show ?case
  proof (cases t)
    case (Lit c)
    with Cons.prems have "c \<noteq> 0x7B" by (auto simp: normal_def)
    with Lit IH show ?thesis by (simp add: tokens_Lit)
  next
    case (Hole k)
    with Cons.prems have "braceFree k" by (auto simp: normal_def)
    with Hole IH show ?thesis by (simp add: placeholder_eq tokens_Hole)
  qed
qed

lemma normal_subst1:
  "normal ts \<Longrightarrow> 0x7B \<notin> set r \<Longrightarrow> normal (subst1 k r ts)"
  by (induction k r ts rule: subst1.induct) (auto simp: normal_def)

lemma flat_from_key:
  "braceFree k \<Longrightarrow> flat_from b (k @ s) = flat_from b s"
  by (induction k) (auto simp: braceFree_def)

lemma flat_from_True_Open:
  "\<not> (\<exists>k rest. braceFree k \<and> cs = k @ 0x7D # rest) \<Longrightarrow> \<not> flat_from True cs"
proof (induction cs)
  case Nil
  show ?case by simp
next
  case (Cons c cs)
  show ?case
  proof (cases "c = 0x7B \<or> c = 0x7D")
    case True
    then show ?thesis
    proof
      assume "c = 0x7B" then show ?thesis by simp
    next
      assume c: "c = 0x7D"
      have "braceFree []" by (simp add: braceFree_def)
      with c Cons.prems have False by (metis append_Nil)
      then show ?thesis ..
    qed
  next
    case False
    have "\<not> (\<exists>k rest. braceFree k \<and> cs = k @ 0x7D # rest)"
    proof
      assume "\<exists>k rest. braceFree k \<and> cs = k @ 0x7D # rest"
      then obtain k rest where "braceFree k" "cs = k @ 0x7D # rest" by blast
      with False have "braceFree (c # k)" "c # cs = (c # k) @ 0x7D # rest"
        by (auto simp: braceFree_def)
      with Cons.prems show False by blast
    qed
    with Cons.IH False show ?thesis by simp
  qed
qed

lemma flat_tokens: "flat s \<Longrightarrow> Lit 0x7B \<notin> set (tokens s)"
  unfolding flat_def
proof (induction s rule: tokens_induct)
  case Nil
  show ?case by simp
next
  case (Lit c cs)
  then show ?case by (auto simp: tokens_Lit split: if_splits)
next
  case (Hole k rest)
  from Hole.prems have "flat_from True (k @ 0x7D # rest)" by simp
  with Hole(1) have "flat_from False rest" by (simp add: flat_from_key)
  with Hole show ?case by (simp add: tokens_Hole)
next
  case (Open cs)
  from Open.prems have "flat_from True cs" by simp
  with flat_from_True_Open[OF Open(1)] show ?case by simp
qed

lemma flat_normal: "flat s \<Longrightarrow> normal (tokens s)"
  by (auto simp: normal_def flat_tokens tokens_Hole_braceFree)

lemma hexDigit_unescaped: "uriUnescaped (hexDigit d)"
proof -
  have all: "\<forall>c\<in>set (str ''0123456789ABCDEF''). uriUnescaped c"
    by (simp add: str_def uriUnescaped_def)
  have "d mod 16 < length (str ''0123456789ABCDEF'')" by (simp add: str_def)
  then have "str ''0123456789ABCDEF'' ! (d mod 16) \<in> set (str ''0123456789ABCDEF'')"
    by (rule nth_mem)
  with all show ?thesis unfolding hexDigit_def by blast
qed

lemma uriSafe_percent: "uriSafe (concat (map percent os))"
  by (induction os) (auto simp: uriSafe_def percent_def hexDigit_unescaped)

lemma uriSafe_append: "uriSafe (a @ b) \<longleftrightarrow> uriSafe a \<and> uriSafe b"
  by (auto simp: uriSafe_def)

lemma emit_Inr: "emit R later = Inr r \<longleftrightarrow> (\<exists>S. later = Inr S \<and> r = R @ S)"
  by (auto simp: emit_def split: sum.splits)

lemma Encode_uriSafe: "Encode s = Inr r \<Longrightarrow> uriSafe r"
proof (induction s arbitrary: r rule: Encode.induct)
  case 1
  then show ?case by (simp add: uriSafe_def)
next
  case (2 C rest)
  show ?case
  proof (cases "uriUnescaped C")
    case True
    with "2.prems" obtain S where S: "Encode rest = Inr S" "r = [C] @ S"
      by (auto simp: emit_Inr)
    from "2.IH"(1)[OF True S(1)] True S(2) show ?thesis
      by (simp add: uriSafe_def)
  next
    case False
    define cp where "cp = CodePointAt C rest"
    from False "2.prems" have np: "\<not> IsUnpairedSurrogate cp"
      by (auto simp: cp_def Let_def simp del: CodePointAt.simps split: if_splits)
    with False "2.prems" obtain S where
      S: "Encode (drop (CodeUnitCount cp - 1) rest) = Inr S"
         "r = concat (map percent (utf8 (CodePoint cp))) @ S"
      by (auto simp: cp_def Let_def emit_Inr simp del: CodePointAt.simps)
    from "2.IH"(2)[OF False cp_def np S(1)] S(2) show ?thesis
      by (simp add: uriSafe_append uriSafe_percent)
  qed
qed

lemma uriSafe_no_specials:
  assumes "uriSafe r"
  shows "0x7B \<notin> set r" "0x7D \<notin> set r" "0x24 \<notin> set r"
  using assms by (auto simp: uriSafe_def uriUnescaped_def)

lemma encodeURIComponent_safe:
  "encodeURIComponent s = Inr r \<Longrightarrow> uriSafe r"
  by (simp add: encodeURIComponent_def Encode_uriSafe)

lemma encodable_iff: "encodable v \<longleftrightarrow> encodeURIComponent (ToString v) = Inr (encoded v)"
  by (auto simp: encodable_def encoded_def split: sum.splits)

lemma not_encodable_iff: "\<not> encodable v \<longleftrightarrow> encodeURIComponent (ToString v) = Inl URIError"
  by (auto simp: encodable_def split: sum.splits) (metis error.exhaust)

lemma encoded_safe: "encodable v \<Longrightarrow> uriSafe (encoded v)"
  by (simp add: encodable_iff encodeURIComponent_safe)

lemma fillPath_loop_error:
  "\<exists>e\<in>set M. \<not> encodable (snd e) \<Longrightarrow> fillPath_loop T M = Inl URIError"
proof (induction M arbitrary: T)
  case Nil
  then show ?case by simp
next
  case (Cons e M)
  obtain k v where e: "e = (k, v)" by (cases e)
  show ?case
  proof (cases "encodable v")
    case False
    then show ?thesis by (simp add: e not_encodable_iff)
  next
    case True
    with Cons.prems e have "\<exists>e\<in>set M. \<not> encodable (snd e)" by auto
    from Cons.IH[OF this] True show ?thesis by (simp add: e encodable_iff)
  qed
qed

lemma fillPath_loop_tokens:
  assumes "\<forall>e\<in>set M. encodable (snd e)" "\<forall>e\<in>set M. braceFree (fst e)" "normal (tokens T)"
  shows "fillPath_loop T M = Inr (unparse (fold substEntry M (tokens T)))
       \<and> normal (fold substEntry M (tokens T))"
  using assms
proof (induction M arbitrary: T)
  case Nil
  then show ?case by (simp add: unparse_tokens)
next
  case (Cons e M)
  obtain k v where e: "e = (k, v)" by (cases e)
  from Cons.prems e have v: "encodable v" and k: "braceFree k" by auto
  let ?r = "encoded v"
  let ?T' = "replace T (str ''{'' @ k @ str ''}'') ?r"
  from v have safe: "uriSafe ?r" by (rule encoded_safe)
  have T': "?T' = unparse (subst1 k ?r (tokens T))"
    using replace_replaceFirst[OF uriSafe_no_specials(3)[OF safe]] replaceFirst_tokens[OF k]
    by (simp add: placeholder_def)
  have n: "normal (subst1 k ?r (tokens T))"
    using Cons.prems(3) uriSafe_no_specials(1)[OF safe] by (rule normal_subst1)
  then have tok: "tokens ?T' = subst1 k ?r (tokens T)"
    by (simp add: T' tokens_unparse)
  have "fillPath_loop ?T' M = Inr (unparse (fold substEntry M (tokens ?T')))
       \<and> normal (fold substEntry M (tokens ?T'))"
    using Cons.prems n by (intro Cons.IH) (simp_all add: tok)
  then show ?case
    using v by (simp add: e encodable_iff tok)
qed

lemma subst1_Lits: "subst1 k r (map Lit u @ ts) = map Lit u @ subst1 k r ts"
  by (induction u) simp_all

lemma subst1_commute:
  "k1 \<noteq> k2 \<Longrightarrow> subst1 k1 r1 (subst1 k2 r2 ts) = subst1 k2 r2 (subst1 k1 r1 ts)"
  by (induction ts rule: subst1.induct[of _ k1 r1]) (simp_all add: subst1_Lits)

lemma fold_step_permute:
  assumes "distinct (map fst M)" "mset M' = mset M"
  shows "fold substEntry M' ts = fold substEntry M ts"
proof -
  have "fold substEntry M = fold substEntry M'"
  proof (rule fold_multiset_equiv)
    fix x y assume "x \<in> set M" "y \<in> set M"
    show "substEntry x \<circ> substEntry y = substEntry y \<circ> substEntry x"
    proof (cases "x = y")
      case True then show ?thesis by simp
    next
      case False
      with \<open>x \<in> set M\<close> \<open>y \<in> set M\<close> assms(1) have "fst x \<noteq> fst y"
        by (meson distinct_map inj_onD)
      then show ?thesis by (cases x; cases y) (auto simp: fun_eq_iff subst1_commute)
    qed
  next
    show "mset M = mset M'" using assms(2) by simp
  qed
  then show ?thesis by simp
qed

lemma fillPath_loop_permute:
  assumes "flat T" "\<forall>e\<in>set M. braceFree (fst e)" "distinct (map fst M)" "mset M' = mset M"
  shows "fillPath_loop T M' = fillPath_loop T M"
proof -
  from assms(4) have set: "set M' = set M" by (rule mset_eq_setD)
  show ?thesis
  proof (cases "\<forall>e\<in>set M. encodable (snd e)")
    case True
    from fillPath_loop_tokens[OF True assms(2) flat_normal[OF assms(1)]]
      fillPath_loop_tokens[of M' T] True assms(2) flat_normal[OF assms(1)] set
      fold_step_permute[OF assms(3,4)]
    show ?thesis by simp
  next
    case False
    then have "fillPath_loop T M = Inl URIError" by (intro fillPath_loop_error) simp
    moreover from False set have "fillPath_loop T M' = Inl URIError"
      by (intro fillPath_loop_error) simp
    ultimately show ?thesis by simp
  qed
qed

lemma occurrences_skip:
  "0x7B \<notin> set u \<Longrightarrow> occurrences (0x7B # q) (u @ s) = occurrences (0x7B # q) s"
  by (induction u) auto

lemma occurrences_tokens:
  assumes k: "braceFree k"
  shows "occurrences (placeholder k) s = count_list (holes (tokens s)) k"
proof (induction s rule: tokens_induct)
  case Nil
  show ?case by (simp add: placeholder_eq)
next
  case (Lit c cs)
  then show ?case by (simp add: placeholder_eq tokens_Lit)
next
  case (Hole k' rest)
  have "0x7B \<notin> set (k' @ [0x7D])" using Hole(1) by (simp add: braceFree_def)
  then have "occurrences (0x7B # k @ [0x7D]) ((k' @ [0x7D]) @ rest)
      = occurrences (0x7B # k @ [0x7D]) rest"
    by (rule occurrences_skip)
  with Hole prefix_key[OF k Hole(1), of rest] show ?case
    by (auto simp: placeholder_eq tokens_Hole)
next
  case (Open cs)
  have "\<not> prefix (k @ [0x7D]) cs"
  proof
    assume "prefix (k @ [0x7D]) cs"
    then obtain zs where "cs = k @ 0x7D # zs" by (auto simp: prefix_def)
    with Open(1) k show False by blast
  qed
  with Open show ?case by (simp add: placeholder_eq tokens_Open)
qed

lemma holes_append [simp]: "holes (ts @ us) = holes ts @ holes us"
  by (induction ts rule: holes.induct) simp_all

lemma holes_Lits [simp]: "holes (map Lit r) = []"
  by (induction r) simp_all

lemma holes_subst1_other:
  "k' \<noteq> k \<Longrightarrow> count_list (holes (subst1 k r ts)) k' = count_list (holes ts) k'"
  by (induction k r ts rule: subst1.induct) auto

lemma holes_fold_step_other:
  "k' \<notin> fst ` set M \<Longrightarrow> count_list (holes (fold substEntry M ts)) k' = count_list (holes ts) k'"
proof (induction M arbitrary: ts)
  case Nil
  show ?case by simp
next
  case (Cons e M)
  obtain k v where e: "e = (k, v)" by (cases e)
  with Cons.prems have "k' \<noteq> k" "k' \<notin> fst ` set M" by auto
  with Cons.IH[of "subst1 k (encoded v) ts"] show ?case
    by (simp add: e holes_subst1_other)
qed

lemma unparse_substAll: "unparse (substAll f ts) = concat (map (expand f) ts)"
  by (induction f ts rule: substAll.induct) (auto split: option.splits)

lemma substAll_id: "\<forall>k\<in>set (holes ts). f k = None \<Longrightarrow> substAll f ts = ts"
  by (induction f ts rule: substAll.induct) auto

lemma substAll_Lits [simp]: "substAll f (map Lit r @ ts) = map Lit r @ substAll f ts"
  by (induction r) simp_all

lemma subst1_substAll_gen:
  assumes "f k = Some r" "\<forall>x. x \<noteq> k \<longrightarrow> f x = None"
  shows "distinct (holes ts) \<Longrightarrow> subst1 k r ts = substAll f ts"
proof (induction ts rule: holes.induct)
  case 1
  show ?case by simp
next
  case (2 c ts)
  then show ?case by simp
next
  case (3 k' ts)
  show ?case
  proof (cases "k' = k")
    case True
    with 3(2) assms(2) have "\<forall>x\<in>set (holes ts). f x = None" by auto
    then have "substAll f ts = ts" by (rule substAll_id)
    with True assms(1) show ?thesis by simp
  next
    case False
    with 3 assms(2) show ?thesis by simp
  qed
qed

lemma subst1_substAll:
  "distinct (holes ts) \<Longrightarrow> subst1 k r ts = substAll [k \<mapsto> r] ts"
  by (rule subst1_substAll_gen) simp_all

lemma substAll_substAll:
  "dom f \<inter> dom g = {} \<Longrightarrow> substAll g (substAll f ts) = substAll (f ++ g) ts"
proof (induction f ts rule: substAll.induct)
  case (3 f k ts)
  show ?case
  proof (cases "f k")
    case None
    with 3 show ?thesis by (auto simp: map_add_def split: option.splits)
  next
    case (Some r)
    with 3(2) have "g k = None" by auto
    with Some 3 show ?thesis by (simp add: map_add_def)
  qed
qed simp_all

lemma holes_substAll: "holes (substAll f ts) = filter (\<lambda>k. f k = None) (holes ts)"
  by (induction f ts rule: substAll.induct) (auto split: option.splits)

lemma fold_step_substAll:
  assumes "distinct (map fst M)" "distinct (holes ts)"
  shows "fold substEntry M ts = substAll (map_of (map (\<lambda>(k, v). (k, encoded v)) M)) ts"
  using assms
proof (induction M arbitrary: ts)
  case Nil
  have "substAll Map.empty ts = ts" by (rule substAll_id) simp
  then show ?case by simp
next
  case (Cons e M)
  obtain k v where e: "e = (k, v)" by (cases e)
  let ?m = "map_of (map (\<lambda>(k, v). (k, encoded v)) M)"
  from Cons.prems e have kM: "k \<notin> fst ` set M" and dM: "distinct (map fst M)" by auto
  from kM have mk: "?m k = None"
    by (auto simp: map_of_eq_None_iff image_iff)
  have d': "distinct (holes (substAll [k \<mapsto> encoded v] ts))"
    using Cons.prems(2) by (simp add: holes_substAll)
  have "fold substEntry (e # M) ts = fold substEntry M (substAll [k \<mapsto> encoded v] ts)"
    using Cons.prems(2) by (simp add: e subst1_substAll)
  also have "\<dots> = substAll ?m (substAll [k \<mapsto> encoded v] ts)"
    using dM d' by (rule Cons.IH)
  also have "\<dots> = substAll ([k \<mapsto> encoded v] ++ ?m) ts"
    using mk by (intro substAll_substAll) auto
  also have "[k \<mapsto> encoded v] ++ ?m = ?m(k \<mapsto> encoded v)"
    using mk by (auto simp: map_add_def fun_eq_iff split: option.splits)
  finally show ?case by (simp add: e)
qed

lemma fillPath_Some [simp]: "fillPath T (Some M) = fillPath_loop T M"
  by (simp add: fillPath_def)

lemma fillPath_error_iff:
  "fillPath_loop T M = Inl URIError \<longleftrightarrow> (\<exists>e\<in>set M. \<not> encodable (snd e))"
proof (induction M arbitrary: T)
  case Nil
  show ?case by simp
next
  case (Cons e M)
  obtain k v where e: "e = (k, v)" by (cases e)
  show ?case
  proof (cases "encodable v")
    case True
    with Cons.IH show ?thesis by (simp add: e encodable_iff)
  next
    case False
    then show ?thesis by (auto simp: e not_encodable_iff)
  qed
qed

lemma fillPath_first:
  assumes "flat T" "\<forall>e\<in>set M. braceFree (fst e)" "distinct (map fst M)"
    and "(k, v) \<in> set M" "encodeURIComponent (ToString v) = Inr r"
  shows "fillPath_loop T M = fillPath_loop (replaceFirst (placeholder k) r T) (remove1 (k, v) M)"
proof -
  have "mset ((k, v) # remove1 (k, v) M) = mset M" using assms(4) by simp
  from fillPath_loop_permute[OF assms(1-3) this]
  have "fillPath_loop T M = fillPath_loop T ((k, v) # remove1 (k, v) M)" by simp
  also have "\<dots> = fillPath_loop (replace T (placeholder k) r) (remove1 (k, v) M)"
    using assms(5) by (simp add: placeholder_def)
  also have "replace T (placeholder k) r = replaceFirst (placeholder k) r T"
    using uriSafe_no_specials(3)[OF encodeURIComponent_safe[OF assms(5)]]
    by (rule replace_replaceFirst)
  finally show ?thesis .
qed

lemma fillPath_missing:
  assumes "flat T" "\<forall>e\<in>set M. braceFree (fst e)"
    and "fillPath_loop T M = Inr res" "braceFree k'" "k' \<notin> fst ` set M"
  shows "occurrences (placeholder k') res = occurrences (placeholder k') T"
proof -
  have enc: "\<forall>e\<in>set M. encodable (snd e)"
    using assms(3) fillPath_error_iff[of T M] by auto
  from fillPath_loop_tokens[OF enc assms(2) flat_normal[OF assms(1)]] assms(3)
  have res: "res = unparse (fold substEntry M (tokens T))" and n: "normal (fold substEntry M (tokens T))"
    by simp_all
  have "tokens res = fold substEntry M (tokens T)" using n by (simp add: res tokens_unparse)
  then show ?thesis
    using holes_fold_step_other[OF assms(5)] by (simp add: occurrences_tokens[OF assms(4)])
qed

lemma fillPath_error_source:
  "fillPath_loop T M = Inl e \<longleftrightarrow> (\<exists>(k, v)\<in>set M. encodeURIComponent (ToString v) = Inl e)"
proof -
  have e: "e = URIError" by (cases e)
  have "(\<exists>e\<in>set M. \<not> encodable (snd e))
      \<longleftrightarrow> (\<exists>(k, v)\<in>set M. encodeURIComponent (ToString v) = Inl URIError)"
    by (simp add: not_encodable_iff split_beta)
  with fillPath_error_iff[of T M] e show ?thesis by simp
qed

lemma digitChar_unescaped: "uriUnescaped (digitChar d)"
proof -
  have all: "\<forall>c\<in>set (str ''0123456789''). uriUnescaped c"
    by (simp add: str_def uriUnescaped_def)
  have "d mod 10 < length (str ''0123456789'')" by (simp add: str_def)
  then have "str ''0123456789'' ! (d mod 10) \<in> set (str ''0123456789'')"
    by (rule nth_mem)
  with all show ?thesis unfolding digitChar_def by blast
qed

lemma decimal_unescaped: "\<forall>c\<in>set (decimal n). uriUnescaped c"
proof (induction n rule: decimal.induct)
  case (1 n)
  have minus: "\<forall>c\<in>set (str ''-''). uriUnescaped c"
    by (simp add: str_def uriUnescaped_def)
  consider "n < 0" | "0 \<le> n" "n < 10" | "10 \<le> n" by linarith
  then show ?case
  proof cases
    case 1
    with "1.IH"(1) minus show ?thesis by (auto simp: decimal.simps[of n])
  next
    case 2
    then show ?thesis by (simp add: decimal.simps[of n] digitChar_unescaped)
  next
    case 3
    with "1.IH"(2) show ?thesis by (simp add: decimal.simps[of n] digitChar_unescaped)
  qed
qed

lemma uriUnescaped_ascii: "uriUnescaped c \<Longrightarrow> c < 0x80"
  unfolding uriUnescaped_def by (auto simp: word_le_nat_alt word_less_nat_alt)

lemma ascii_Nil [simp]: "ascii []"
  by (simp add: ascii_def)

lemma ascii_append [simp]: "ascii (a @ b) \<longleftrightarrow> ascii a \<and> ascii b"
  by (simp add: ascii_def)

lemma ascii_decimal: "ascii (decimal n)"
  using decimal_unescaped[of n] by (auto simp: ascii_def list_all_iff dest: uriUnescaped_ascii)

lemma ascii_zeros: "ascii (replicate m 0x30)"
  by (induction m) (simp_all add: ascii_def)

lemma ascii_take: "ascii s \<Longrightarrow> ascii (take m s)"
  by (auto simp: ascii_def list_all_iff dest: in_set_takeD)

lemma ascii_drop: "ascii s \<Longrightarrow> ascii (drop m s)"
  by (auto simp: ascii_def list_all_iff dest: in_set_dropD)

lemma ascii_NumberToString: "ascii (NumberToString x)"
proof (cases x)
  case NaN
  then show ?thesis by (simp add: ascii_def str_def)
next
  case PositiveInfinity
  then show ?thesis by (simp add: ascii_def str_def)
next
  case NegativeInfinity
  then show ?thesis by (simp add: ascii_def str_def)
next
  case (Finite s n)
  have lits: "ascii (str ''-'')" "ascii (str ''+'')" "ascii (str ''.'')" "ascii (str ''e'')"
    "ascii (str ''0.'')" "ascii (str ''0'')"
    by (simp_all add: ascii_def str_def)
  note parts = lits ascii_decimal ascii_zeros ascii_take[OF ascii_decimal] ascii_drop[OF ascii_decimal]
  show ?thesis unfolding Finite NumberToString.simps Let_def
    by (simp only: parts ascii_append ascii_Nil simp_thms if_split)
qed

lemma ascii_joinComma: "list_all ascii xs \<Longrightarrow> ascii (joinComma xs)"
proof (induction xs rule: joinComma.induct)
  case (3 x y xs)
  have "ascii (str '','')" by (simp add: ascii_def str_def)
  with 3 show ?case by simp
qed simp_all

lemma ascii_ToString: "holdsNoString v \<Longrightarrow> ascii (ToString v)"
proof (induction v)
  case (JSString s)
  then show ?case by simp
next
  case (JSNumber n)
  show ?case by (simp add: ascii_decimal)
next
  case (JSDouble x)
  show ?case by (simp add: ascii_NumberToString)
next
  case (JSBoolean b)
  show ?case by (simp add: ascii_def str_def)
next
  case JSNull
  show ?case by (simp add: ascii_def str_def)
next
  case JSUndefined
  show ?case by (simp add: ascii_def str_def)
next
  case (JSArray vs)
  have "list_all ascii (map (\<lambda>v. if v = JSNull \<or> v = JSUndefined then [] else ToString v) vs)"
    using JSArray by (auto simp: list_all_iff)
  then show ?case by (simp add: ascii_joinComma)
qed

lemma Encode_ascii: "ascii s \<Longrightarrow> \<exists>r. Encode s = Inr r"
proof (induction s)
  case Nil
  show ?case by simp
next
  case (Cons C rest)
  then have C: "C < 0x80" and "ascii rest" by (simp_all add: ascii_def)
  with Cons.IH obtain r where r: "Encode rest = Inr r" by blast
  from C have "\<not> isLeadingSurrogate C" "\<not> isTrailingSurrogate C"
    by (simp_all add: isLeadingSurrogate_def isTrailingSurrogate_def
          word_le_nat_alt word_less_nat_alt)
  then show ?case by (simp add: r emit_def Let_def)
qed

lemma holdsNoString_encodable: "holdsNoString v \<Longrightarrow> encodable v"
proof -
  assume "holdsNoString v"
  then have "ascii (ToString v)" by (rule ascii_ToString)
  then obtain r where "Encode (ToString v) = Inr r" using Encode_ascii by blast
  then show "encodable v" by (simp add: encodable_def encodeURIComponent_def)
qed

lemma fillPath_loop_fold:
  "\<forall>e\<in>set M. encodable (snd e) \<Longrightarrow>
   fillPath_loop T M
     = Inr (fold (\<lambda>(k, v) path. replaceFirst (placeholder k) (encoded v) path) M T)"
proof (induction M arbitrary: T)
  case Nil
  show ?case by simp
next
  case (Cons e M)
  obtain k v where e: "e = (k, v)" by (cases e)
  with Cons.prems have "encodable v" by simp
  then have enc: "encodeURIComponent (ToString v) = Inr (encoded v)"
    by (simp add: encodable_iff)
  have "replace T (placeholder k) (encoded v) = replaceFirst (placeholder k) (encoded v) T"
    using uriSafe_no_specials(3)[OF encodeURIComponent_safe[OF enc]]
    by (rule replace_replaceFirst)
  with Cons enc show ?case by (simp add: e placeholder_def)
qed

text \<open>
  What the notions say in terms of the text alone: a pattern occurs in a string when the
  string is some text, the pattern and some text; the placeholders of a string are the
  names without braces whose placeholder occurs in it.
\<close>

lemma occurrences_pos_iff:
  "0 < occurrences pat s \<longleftrightarrow> (\<exists>pre post. s = pre @ pat @ post)"
proof (induction s)
  case Nil
  show ?case by auto
next
  case (Cons c cs)
  show ?case
  proof
    assume "0 < occurrences pat (c # cs)"
    then consider "prefix pat (c # cs)" | "0 < occurrences pat cs"
      by (auto split: if_splits)
    then show "\<exists>pre post. c # cs = pre @ pat @ post"
    proof cases
      case 1
      then obtain post where "c # cs = pat @ post" by (auto simp: prefix_def)
      then have "c # cs = [] @ pat @ post" by simp
      then show ?thesis by blast
    next
      case 2
      with Cons.IH obtain pre post where "cs = pre @ pat @ post" by blast
      then have "c # cs = (c # pre) @ pat @ post" by simp
      then show ?thesis by blast
    qed
  next
    assume "\<exists>pre post. c # cs = pre @ pat @ post"
    then obtain pre post where eq: "c # cs = pre @ pat @ post" by blast
    show "0 < occurrences pat (c # cs)"
    proof (cases pre)
      case Nil
      with eq have "prefix pat (c # cs)" by (simp add: prefix_def)
      then show ?thesis by simp
    next
      case (Cons d pre')
      with eq have "cs = pre' @ pat @ post" by simp
      with Cons.IH have "0 < occurrences pat cs" by blast
      then show ?thesis by simp
    qed
  qed
qed

lemma set_holes: "k \<in> set (holes ts) \<longleftrightarrow> Hole k \<in> set ts"
  by (induction ts rule: holes.induct) auto

lemma placeholders_iff:
  "k \<in> set (placeholders s) \<longleftrightarrow> braceFree k \<and> (\<exists>pre post. s = pre @ placeholder k @ post)"
proof (cases "braceFree k")
  case True
  have "k \<in> set (placeholders s) \<longleftrightarrow> 0 < count_list (holes (tokens s)) k"
    using count_list_0_iff[of "holes (tokens s)" k] by (auto simp: placeholders_def)
  also have "\<dots> \<longleftrightarrow> 0 < occurrences (placeholder k) s"
    by (simp add: occurrences_tokens[OF True])
  finally show ?thesis using True by (simp add: occurrences_pos_iff)
next
  case False
  have "k \<notin> set (placeholders s)"
  proof
    assume "k \<in> set (placeholders s)"
    then have "Hole k \<in> set (tokens s)"
      by (simp add: placeholders_def set_holes)
    then have "braceFree k" by (rule tokens_Hole_braceFree)
    with False show False by simp
  qed
  with False show ?thesis by simp
qed

subsection \<open>Awaiting and the schedule\<close>

lemma andThen_Resolved:
  "andThen a b sched s = (Resolved, sched', s') \<longleftrightarrow>
     (\<exists>sched1 s1. a sched s = (Resolved, sched1, s1) \<and> b sched1 s1 = (Resolved, sched', s'))"
  by (auto simp: andThen_def split: prod.splits settled.splits)




lemma runAll_length: "runAll ps sched s = (ps', sched', s') \<Longrightarrow> length ps' = length ps"
proof (induction ps sched s rule: runAll.induct)
  case (1 ps s)
  then show ?case by simp
next
  case (2 ps i sched s)
  show ?case
  proof (cases "allState ps \<noteq> None")
    case True
    with 2 show ?thesis by simp
  next
    case False
    then show ?thesis
      using 2 by (auto split: if_splits promise.splits prod.splits)
  qed
qed

lemma allState_Resolved: "allState ps = Some Resolved \<longleftrightarrow> list_all isFulfilled ps"
proof -
  have "list_all isFulfilled ps \<Longrightarrow> firstRejected ps = None"
    by (induction ps rule: firstRejected.induct) auto
  then show ?thesis by (auto simp: allState_def split: option.splits)
qed

lemma awaitAll_Resolved:
  "awaitAll ps sched s = (Resolved, sched', s') \<longleftrightarrow>
     (\<exists>ps'. runAll ps sched s = (ps', sched', s') \<and> list_all isFulfilled ps')"
  by (auto simp: awaitAll_def allState_Resolved[symmetric] split: prod.splits option.splits)

lemma callEach_length: "callEach cs s = (Inr ps, s') \<Longrightarrow> length ps = length cs"
  by (induction cs arbitrary: s ps s')
     (auto split: prod.splits completion.splits sum.splits)

lemma awaitPromiseAll_Resolved:
  "awaitPromiseAll cs sched s = (Resolved, sched', s') \<longleftrightarrow>
     (\<exists>ps s3. callEach cs s = (Inr ps, s3) \<and> awaitAll ps sched s3 = (Resolved, sched', s'))"
  by (auto simp: awaitPromiseAll_def split: prod.splits sum.splits)


subsection \<open>The three steps of the composed hook\<close>

lemma createHook_tiers:
  "createHook hooks baseOpts hook hookIdentifier ctx =
     andThen (awaitCall (callHook hooks (''openFetch:'' @ hookName hook) ctx))
       (andThen (clientTier hooks hook hookIdentifier ctx) (localTier baseOpts hook ctx))"
  by (simp add: createHook_def clientTier_def localTier_def)




lemma localTier_Resolved:
  assumes "localTier baseOpts hook ctx sched2 s2 = (Resolved, sched', s')"
  shows "case hookOf baseOpts hook of
           Value (HookFn h) \<Rightarrow> awaitCall (h ctx) sched2 s2 = (Resolved, sched', s')
         | Value (HookList hs) \<Rightarrow>
             (\<exists>ps s3 ps'. callEach (map (\<lambda>h. h ctx) hs) s2 = (Inr ps, s3)
                \<and> length ps = length hs
                \<and> runAll ps sched2 s3 = (ps', sched', s')
                \<and> length ps' = length hs \<and> list_all isFulfilled ps')
         | _ \<Rightarrow> (sched', s') = (sched2, s2)"
proof (cases "hookOf baseOpts hook")
  case Absent
  with assms show ?thesis by (simp add: localTier_def skip_def)
next
  case Undefined
  with assms show ?thesis by (simp add: localTier_def skip_def)
next
  case (Value f)
  show ?thesis
  proof (cases f)
    case (HookFn h)
    with Value assms show ?thesis by (simp add: localTier_def)
  next
    case (HookList hs)
    with Value assms
    have "awaitPromiseAll (map (\<lambda>h. h ctx) hs) sched2 s2 = (Resolved, sched', s')"
      by (simp add: localTier_def)
    then obtain ps s3 ps' where
      ce: "callEach (map (\<lambda>h. h ctx) hs) s2 = (Inr ps, s3)"
      and ra: "runAll ps sched2 s3 = (ps', sched', s')" and fu: "list_all isFulfilled ps'"
      unfolding awaitPromiseAll_Resolved awaitAll_Resolved by blast
    from callEach_length[OF ce] have len: "length ps = length hs" by simp
    with runAll_length[OF ra] have "length ps' = length hs" by simp
    with ce ra fu len Value HookList show ?thesis by auto
  qed
qed

lemma clientTier_Resolved:
  assumes "clientTier hooks hook hookIdentifier ctx sched1 s1 = (Resolved, sched2, s2)"
  shows "case hookIdentifier of
           None \<Rightarrow> (sched2, s2) = (sched1, s1)
         | Some i \<Rightarrow>
             if i = [] then (sched2, s2) = (sched1, s1)
             else awaitCall (callHook hooks (''openFetch:'' @ hookName hook @ '':'' @ i) ctx) sched1 s1
                    = (Resolved, sched2, s2)"
  using assms by (auto simp: clientTier_def skip_def split: option.splits if_splits)

section \<open>The properties of the hook dispatch chain\<close>



text \<open>
  Claim C5: when the publication on the global channel fails (its call throws or its
  promise is rejected), the composed hook fails with the same value, in the state and
  at the turn of the failure, whatever the client identifier and the hooks of the
  options are: neither the channel of the client nor the local hooks run. When the
  publication on the channel of the client fails, the composed hook fails with the same
  value in the same way and no local hook runs. A failure of the local hooks is the
  failure of the composed hook as well. The value is the one the hook threw: nothing
  catches or wraps it.
\<close>

theorem createHook_failure_aborts_chain:
  "(awaitCall (callHook hooks (''openFetch:'' @ hookName hook) ctx) sched s = (Failed e, sched1, s1)
      \<longrightarrow> createHook hooks baseOpts hook hookIdentifier ctx sched s = (Failed e, sched1, s1))
   \<and> (awaitCall (callHook hooks (''openFetch:'' @ hookName hook) ctx) sched s = (Resolved, sched1, s1)
      \<and> hookIdentifier = Some i \<and> i \<noteq> []
      \<and> awaitCall (callHook hooks (''openFetch:'' @ hookName hook @ '':'' @ i) ctx) sched1 s1
           = (Failed e, sched2, s2)
      \<longrightarrow> createHook hooks baseOpts hook hookIdentifier ctx sched s = (Failed e, sched2, s2))
   \<and> (awaitCall (callHook hooks (''openFetch:'' @ hookName hook) ctx) sched s = (Resolved, sched1, s1)
      \<and> clientTier hooks hook hookIdentifier ctx sched1 s1 = (Resolved, sched2, s2)
      \<and> localTier baseOpts hook ctx sched2 s2 = (Failed e, sched3, s3)
      \<longrightarrow> createHook hooks baseOpts hook hookIdentifier ctx sched s = (Failed e, sched3, s3))"
proof (intro conjI impI)
  assume "awaitCall (callHook hooks (''openFetch:'' @ hookName hook) ctx) sched s
            = (Failed e, sched1, s1)"
  then show "createHook hooks baseOpts hook hookIdentifier ctx sched s = (Failed e, sched1, s1)"
    by (simp add: createHook_tiers andThen_def)
next
  assume "awaitCall (callHook hooks (''openFetch:'' @ hookName hook) ctx) sched s
            = (Resolved, sched1, s1)
      \<and> hookIdentifier = Some i \<and> i \<noteq> []
      \<and> awaitCall (callHook hooks (''openFetch:'' @ hookName hook @ '':'' @ i) ctx) sched1 s1
           = (Failed e, sched2, s2)"
  then show "createHook hooks baseOpts hook hookIdentifier ctx sched s = (Failed e, sched2, s2)"
    by (simp add: createHook_tiers andThen_def clientTier_def)
next
  assume "awaitCall (callHook hooks (''openFetch:'' @ hookName hook) ctx) sched s
            = (Resolved, sched1, s1)
      \<and> clientTier hooks hook hookIdentifier ctx sched1 s1 = (Resolved, sched2, s2)
      \<and> localTier baseOpts hook ctx sched2 s2 = (Failed e, sched3, s3)"
  then show "createHook hooks baseOpts hook hookIdentifier ctx sched s = (Failed e, sched3, s3)"
    by (simp add: createHook_tiers andThen_def)
qed

text \<open>
  An instance: the global channel is rejected in its second turn; the log holds the
  global hook only, and two turns of the schedule are left.
\<close>

theorem createHook_failure_aborts_chain_witness:
  "createHook failingGlobal twoLocalHooks onRequest (Some ''api'') () [0, 0, 0] []
     = (Failed ''openFetch:onRequest'', [0, 0],
        [''openFetch:onRequest:start'', ''openFetch:onRequest:end''])"
proof -
  have g: "awaitCall (callHook failingGlobal (''openFetch:'' @ hookName onRequest) ()) [0, 0, 0] []
     = (Failed ''openFetch:onRequest'', [0, 0],
        [''openFetch:onRequest:start'', ''openFetch:onRequest:end''])"
    by code_simp
  from createHook_failure_aborts_chain[of failingGlobal onRequest "()" "[0, 0, 0]" "[]"
      "''openFetch:onRequest''" "[0, 0]" "[''openFetch:onRequest:start'', ''openFetch:onRequest:end'']"
      twoLocalHooks "Some ''api''"] g
  show ?thesis by blast
qed

section \<open>The properties of the client factory\<close>

text \<open>
  Claim C2: when the base configuration is a function, the effective options are what
  the function returns for the options of the call, with no merge. When it is an object,
  the effective options are the spread of the object and the options of the call: each
  key of the options of the call wins over the same key of the object, and a key the
  call does not have keeps the value of the object. The client computes everything else
  from these effective options.
\<close>

theorem effectiveOptions_function_or_merge:
  "effectiveOptions (OptionsFunction f) callOptions = f callOptions
   \<and> effectiveOptions (OptionsObject obj) None = obj
   \<and> baseURL (effectiveOptions (OptionsObject obj) (Some given))
       = (if baseURL given = Absent then baseURL obj else baseURL given)
   \<and> path (effectiveOptions (OptionsObject obj) (Some given))
       = (if path given = Absent then path obj else path given)
   \<and> hookOf (effectiveOptions (OptionsObject obj) (Some given)) hook
       = (if hookOf given hook = Absent then hookOf obj hook else hookOf given hook)
   \<and> other (effectiveOptions (OptionsObject obj) (Some given)) key
       = (case other given key of None \<Rightarrow> other obj key | Some v \<Rightarrow> Some v)
   \<and> createOpenFetch env options localFetch hookIdentifier hooks url callOptions
       = (let baseOpts = effectiveOptions options callOptions;
              opts = spreadHooks baseOpts (getOpenFetchHooks hooks baseOpts hookIdentifier)
          in case fillPath url (pathParams opts) of
               Inl e \<Rightarrow> Inl e
             | Inr filled \<Rightarrow> Inr (getFetch env url opts localFetch filled opts))"
proof -
  have merge: "\<And>x y. override x y = (if y = Absent then x else y)"
    by (simp add: override_def split: property.splits)
  have "effectiveOptions (OptionsObject obj) None = obj"
    by (simp add: effectiveOptions_def spread_def emptyOptions_def override_def)
  moreover have "other (effectiveOptions (OptionsObject obj) (Some given)) key
       = (case other given key of None \<Rightarrow> other obj key | Some v \<Rightarrow> Some v)"
    by (simp add: effectiveOptions_def spread_def map_add_def)
  ultimately show ?thesis
    by (simp add: effectiveOptions_def spread_def createOpenFetch_def merge Let_def)
qed

text \<open>
  Claim C3, as it holds of the code. The claim says that the local transport is selected
  only when the base URL is absent or starts with \<open>/\<close>. The test \<open>!opts.baseURL\<close>
  also holds for the empty string: with a base URL that is present and does not start
  with \<open>/\<close>, the local transport is selected.
\<close>

theorem getFetch_empty_baseURL_local:
  "getFetch \<lparr>server = True, globalFetch = ''global''\<rparr> (str ''/pets'') emptyBase (Some ''local'')
     = ''local''
   \<and> \<not> noBaseURL emptyBase \<and> \<not> rootRelativeBase emptyBase"
  by (simp add: getFetch_def falsy_def noBaseURL_def rootRelativeBase_def emptyBase_def
        emptyOptions_def startsWithSlash_def str_def)

text \<open>
  Claim C3, amended: \<open>getFetch\<close> returns the local transport when the code runs on the
  server, a local transport was supplied, the URL starts with \<open>/\<close>, and the base URL
  is absent, is the empty string or starts with \<open>/\<close>; in every other case it returns
  the global transport.
\<close>

theorem getFetch_selects_local_iff:
  "getFetch env url opts localFetch
     = (case localFetch of
          None \<Rightarrow> globalFetch env
        | Some lf \<Rightarrow>
            if server env \<and> startsWithSlash url
               \<and> (noBaseURL opts \<or> baseURL opts = Value [] \<or> rootRelativeBase opts)
            then lf else globalFetch env)"
proof (cases localFetch)
  case None
  then show ?thesis by (simp add: getFetch_def split: bool.splits)
next
  case (Some lf)
  then show ?thesis
    by (cases "server env"; cases "baseURL opts")
       (auto simp: getFetch_def falsy_def noBaseURL_def rootRelativeBase_def Let_def)
qed



text \<open>
  Claim C6: without a registry \<open>getOpenFetchHooks\<close> returns the object with no key, so
  nothing is published and no composed hook is installed: the options handed to the
  transport are the effective options, whose hook fields hold the hooks of the caller.
  The client then goes on as with a registry; the missing registry raises no error.
\<close>

theorem createOpenFetch_without_registry:
  "getOpenFetchHooks None baseOpts hookIdentifier = (\<lambda>hook. Absent)
   \<and> spreadHooks baseOpts (getOpenFetchHooks None baseOpts hookIdentifier) = localOnly baseOpts
   \<and> createOpenFetch env options localFetch hookIdentifier None url callOptions
       = (let opts = localOnly (effectiveOptions options callOptions)
          in case fillPath url (pathParams opts) of
               Inl e \<Rightarrow> Inl e
             | Inr filled \<Rightarrow> Inr (getFetch env url opts localFetch filled opts))"
proof -
  have none: "getOpenFetchHooks None baseOpts hookIdentifier = (\<lambda>hook. Absent)"
    for baseOpts
    by (simp add: getOpenFetchHooks_def)
  have only: "spreadHooks baseOpts (\<lambda>hook. Absent) = localOnly baseOpts"
    for baseOpts
    by (simp add: spreadHooks_def localOnly_def override_def)
  show ?thesis
    by (simp add: none only createOpenFetch_def Let_def)
qed

section \<open>The properties of the path template resolver\<close>

text \<open>
  Claim C7, as it holds of the code. The claim says that for every template and every
  parameter map \<open>fillPath\<close> replaces the first occurrence of \<open>{k}\<close> in the template for
  each key \<open>k\<close>, leaves the placeholders of missing keys intact and does not depend on
  the order of the keys. The loop replaces in the current text, not in the template, so
  on a template with nested braces a replacement can build the pattern of a later key:
  the two orders of the same two entries give different results.
\<close>

theorem fillPath_nested_order_dependent:
  "fillPath (str ''{x{a}}'') (Some [(str ''a'', JSNumber 1), (str ''x1'', JSString (str ''z''))])
     = Inr (str ''z'')
   \<and> fillPath (str ''{x{a}}'') (Some [(str ''x1'', JSString (str ''z'')), (str ''a'', JSNumber 1)])
     = Inr (str ''{x1}'')"
  by code_simp

text \<open>
  A key with braces does the same on a flat template: the pattern of the key \<open>a}{b\<close>
  spans the two placeholders \<open>{a}\<close> and \<open>{b}\<close>.
\<close>

lemma fillPath_brace_key_order_dependent:
  "fillPath (str ''{a}{b}'') (Some [(str ''a'', JSNumber 1), (str ''a}{b'', JSNumber 2)])
     = Inr (str ''1{b}'')
   \<and> fillPath (str ''{a}{b}'') (Some [(str ''a}{b'', JSNumber 2), (str ''a'', JSNumber 1)])
     = Inr (str ''2'')
   \<and> flat (str ''{a}{b}'')"
  by code_simp

text \<open>
  Claim C7, amended: for a flat template and a parameter map whose keys have no brace,
  the result is the same for every order of the entries; every entry whose value can be
  encoded may be taken first, where it replaces the first occurrence of its placeholder
  in the template itself by the percent-encoded string form of its value; the only error
  is the URIError of a value that cannot be encoded, so a missing key raises none; and
  every placeholder whose key is missing occurs in the result as often as in the
  template.
\<close>

theorem fillPath_flat_first_occurrence_order:
  assumes "flat T" and "\<forall>e\<in>set M. braceFree (fst e)" and "distinct (map fst M)"
  shows "(\<forall>M'. mset M' = mset M \<longrightarrow> fillPath T (Some M') = fillPath T (Some M))
       \<and> (\<forall>k v r. (k, v) \<in> set M \<and> encodeURIComponent (ToString v) = Inr r \<longrightarrow>
            fillPath T (Some M)
              = fillPath (replaceFirst (placeholder k) r T) (Some (remove1 (k, v) M)))
       \<and> (\<forall>e. fillPath T (Some M) = Inl e \<longleftrightarrow>
            (\<exists>(k, v)\<in>set M. encodeURIComponent (ToString v) = Inl e))
       \<and> (\<forall>res k'. fillPath T (Some M) = Inr res \<and> braceFree k' \<and> k' \<notin> fst ` set M \<longrightarrow>
            occurrences (placeholder k') res = occurrences (placeholder k') T)"
proof -
  have a: "\<forall>M'. mset M' = mset M \<longrightarrow> fillPath T (Some M') = fillPath T (Some M)"
  proof (intro allI impI)
    fix M' assume "mset M' = mset M"
    from fillPath_loop_permute[OF assms this]
    show "fillPath T (Some M') = fillPath T (Some M)" by (simp only: fillPath_Some)
  qed
  have b: "\<forall>k v r. (k, v) \<in> set M \<and> encodeURIComponent (ToString v) = Inr r \<longrightarrow>
            fillPath T (Some M)
              = fillPath (replaceFirst (placeholder k) r T) (Some (remove1 (k, v) M))"
  proof (intro allI impI, elim conjE)
    fix k v r assume "(k, v) \<in> set M" "encodeURIComponent (ToString v) = Inr r"
    from fillPath_first[OF assms this]
    show "fillPath T (Some M)
        = fillPath (replaceFirst (placeholder k) r T) (Some (remove1 (k, v) M))"
      by (simp only: fillPath_Some)
  qed
  have c: "\<forall>e. fillPath T (Some M) = Inl e \<longleftrightarrow>
            (\<exists>(k, v)\<in>set M. encodeURIComponent (ToString v) = Inl e)"
    by (simp only: fillPath_Some fillPath_error_source) simp
  have d: "\<forall>res k'. fillPath T (Some M) = Inr res \<and> braceFree k' \<and> k' \<notin> fst ` set M \<longrightarrow>
            occurrences (placeholder k') res = occurrences (placeholder k') T"
  proof (intro allI impI, elim conjE)
    fix res k'
    assume r: "fillPath T (Some M) = Inr res" and k: "braceFree k'" "k' \<notin> fst ` set M"
    from r have "fillPath_loop T M = Inr res" by (simp only: fillPath_Some)
    from fillPath_missing[OF assms(1,2) this k]
    show "occurrences (placeholder k') res = occurrences (placeholder k') T" .
  qed
  from a b c d show ?thesis by (intro conjI)
qed

theorem fillPath_flat_first_occurrence_order_witness:
  "flat (str ''/a/{x}/{y}/{x}'')
   \<and> fillPath (str ''/a/{x}/{y}/{x}'') (Some [(str ''y'', JSString (str ''b c'')), (str ''x'', JSNumber 1)])
     = fillPath (str ''/a/{x}/{y}/{x}'') (Some [(str ''x'', JSNumber 1), (str ''y'', JSString (str ''b c''))])"
proof -
  let ?T = "str ''/a/{x}/{y}/{x}''"
  let ?M = "[(str ''x'', JSNumber 1), (str ''y'', JSString (str ''b c''))]"
  have f: "flat ?T" by code_simp
  have b: "\<forall>e\<in>set ?M. braceFree (fst e)" by (simp add: braceFree_def str_def)
  have d: "distinct (map fst ?M)" by (simp add: str_def)
  have m: "mset [(str ''y'', JSString (str ''b c'')), (str ''x'', JSNumber 1)] = mset ?M"
    by simp
  from fillPath_flat_first_occurrence_order[OF f b d] m f show ?thesis by blast
qed

text \<open>
  Claim C8, as it holds of the code. The claim says that when every placeholder of the
  template has a key in the map, no placeholder remains in the result. Each key is
  replaced once, so the second occurrence of a placeholder remains.
\<close>

theorem fillPath_repeated_placeholder_remains:
  "fillPath (str ''{a}{a}'') (Some [(str ''a'', JSString (str ''1''))]) = Inr (str ''1{a}'')
   \<and> placeholders (str ''{a}{a}'') = [str ''a'', str ''a'']
   \<and> placeholders (str ''1{a}'') = [str ''a'']"
  by code_simp

text \<open>
  The other conditions of the amended claim are needed as well: on a template with nested
  braces the replacement leaves a new placeholder, and a value with a lone surrogate
  makes \<open>encodeURIComponent\<close> throw.
\<close>

lemma fillPath_nested_leaves_placeholder:
  "fillPath (str ''{{a}}'') (Some [(str ''a'', JSNumber 1)]) = Inr (str ''{1}'')
   \<and> placeholders (str ''{{a}}'') = [str ''a'']
   \<and> placeholders (str ''{1}'') = [str ''1'']"
  by code_simp

lemma fillPath_lone_surrogate_throws:
  "fillPath (str ''{a}'') (Some [(str ''a'', JSString [0xD800])]) = Inl URIError"
  by code_simp

text \<open>
  Claim C8, amended: for a flat template in which no placeholder occurs twice and every
  placeholder has a key in the map, with keys that have no brace and values that can be
  encoded, \<open>fillPath\<close> returns a string with no placeholder left, and this string is the
  template with every placeholder replaced by the percent-encoded string form of the
  value of its key.
\<close>

theorem fillPath_flat_distinct_complete:
  assumes "flat T" and "\<forall>e\<in>set M. braceFree (fst e)" and "distinct (map fst M)"
    and "\<forall>e\<in>set M. encodable (snd e)"
    and "set (placeholders T) \<subseteq> fst ` set M" and "distinct (placeholders T)"
  shows "\<exists>res. fillPath T (Some M) = Inr res \<and> placeholders res = []
           \<and> res = substituteAll (encodedMap M) T"
proof -
  let ?ts = "fold substEntry M (tokens T)"
  from fillPath_loop_tokens[OF assms(4,2) flat_normal[OF assms(1)]]
  have res: "fillPath_loop T M = Inr (unparse ?ts)" and n: "normal ?ts" by simp_all
  have ts: "?ts = substAll (encodedMap M) (tokens T)"
    unfolding encodedMap_def using assms(3,6)
    by (intro fold_step_substAll) (simp_all add: placeholders_def)
  have "\<forall>k\<in>set (holes (tokens T)). encodedMap M k \<noteq> None"
  proof
    fix k assume "k \<in> set (holes (tokens T))"
    with assms(5) have "k \<in> fst ` set M" by (auto simp: placeholders_def)
    then have "k \<in> fst ` set (map (\<lambda>(k, v). (k, encoded v)) M)"
      by (force simp: image_iff)
    then show "encodedMap M k \<noteq> None"
      unfolding encodedMap_def by (simp only: map_of_eq_None_iff not_not)
  qed
  then have "holes ?ts = []"
    by (simp add: ts holes_substAll filter_empty_conv)
  with n have "placeholders (unparse ?ts) = []"
    by (simp add: placeholders_def tokens_unparse)
  moreover have "unparse ?ts = substituteAll (encodedMap M) T"
    by (simp add: ts unparse_substAll substituteAll_def)
  ultimately show ?thesis using res by simp
qed

theorem fillPath_flat_distinct_complete_witness:
  "flat (str ''/a/{x}/{y}'')
   \<and> (\<exists>res. fillPath (str ''/a/{x}/{y}'') (Some [(str ''y'', JSString (str ''b c'')), (str ''x'', JSNumber 1)]) = Inr res
        \<and> placeholders res = [])"
proof -
  let ?T = "str ''/a/{x}/{y}''"
  let ?M = "[(str ''y'', JSString (str ''b c'')), (str ''x'', JSNumber 1)]"
  have f: "flat ?T" by code_simp
  have b: "\<forall>e\<in>set ?M. braceFree (fst e)" by (simp add: braceFree_def str_def)
  have d: "distinct (map fst ?M)" by (simp add: str_def)
  have e: "\<forall>e\<in>set ?M. encodable (snd e)" by code_simp
  have p: "placeholders ?T = [str ''x'', str ''y'']" by code_simp
  have s: "set (placeholders ?T) \<subseteq> fst ` set ?M" unfolding p by simp
  have q: "distinct (placeholders ?T)" unfolding p by (simp add: str_def)
  from fillPath_flat_distinct_complete[OF f b d e s q] f show ?thesis by blast
qed

text \<open>
  Claim C9: with the empty parameter map, and with no parameter map (the default of the
  parameter is the empty map), \<open>fillPath\<close> returns the template unchanged. The source
  reads only its two arguments and assigns only its own parameter \<open>path\<close>, which is
  why \<open>fillPath\<close> is a function of its arguments here: equal arguments give equal
  results.
\<close>

theorem fillPath_empty_identity: "fillPath T (Some []) = Inr T \<and> fillPath T None = Inr T"
  by (simp add: fillPath_def)

text \<open>
  Claim C10, as it holds of the code. The claim says that a parameter value that is not
  a string never causes an error. An array is not a string, and its string form is that
  of its elements: the array whose one element is a string with a lone surrogate makes
  \<open>encodeURIComponent\<close> throw, and \<open>fillPath\<close> with it.
\<close>

theorem fillPath_array_value_throws:
  "ToString (JSArray [JSString [0xD800]]) = [0xD800]
   \<and> fillPath (str ''/pet/{petId}'') (Some [(str ''petId'', JSArray [JSString [0xD800]])])
     = Inl URIError"
  by code_simp

text \<open>
  Claim C10, amended, for parameter maps whose values are strings, Numbers, Booleans,
  null, undefined and arrays of these. For every value that holds no string (a Number,
  integral or not, a Boolean, null, undefined, or an array of such values),
  \<open>encodeURIComponent\<close> of its string form returns. When \<open>fillPath\<close> throws, it
  throws the error of an entry whose value holds a string. For every parameter map
  each of whose values holds no string or can be encoded, \<open>fillPath\<close> returns the
  template in which, entry by entry, the percent-encoded string form of the value is
  written for the first occurrence of the placeholder of its key. In particular
  \<open>fillPath('/pet/{petId}', {petId: 1})\<close> is \<open>'/pet/1'\<close>.
\<close>

theorem fillPath_nonString_coerced:
  "(holdsNoString v \<longrightarrow> (\<exists>r. encodeURIComponent (ToString v) = Inr r))
   \<and> (\<forall>e. fillPath T (Some M) = Inl e \<longrightarrow>
         (\<exists>(k, v)\<in>set M. \<not> holdsNoString v \<and> encodeURIComponent (ToString v) = Inl e))
   \<and> ((\<forall>(k, v)\<in>set M. holdsNoString v \<or> encodable v) \<longrightarrow>
         fillPath T (Some M)
           = Inr (fold (\<lambda>(k, v) path. replaceFirst (placeholder k) (encoded v) path) M T))
   \<and> fillPath (str ''/pet/{petId}'') (Some [(str ''petId'', JSNumber 1)]) = Inr (str ''/pet/1'')"
proof (intro conjI allI impI)
  assume "holdsNoString v"
  then have "encodable v" by (rule holdsNoString_encodable)
  then show "\<exists>r. encodeURIComponent (ToString v) = Inr r" by (auto simp: encodable_iff)
next
  fix e assume "fillPath T (Some M) = Inl e"
  then have "\<exists>(k, v)\<in>set M. encodeURIComponent (ToString v) = Inl e"
    by (simp only: fillPath_Some fillPath_error_source)
  then obtain k v where m: "(k, v) \<in> set M" and f: "encodeURIComponent (ToString v) = Inl e"
    by blast
  have "\<not> holdsNoString v"
  proof
    assume "holdsNoString v"
    then have "encodable v" by (rule holdsNoString_encodable)
    with f show False by (simp add: encodable_iff)
  qed
  with m f show "\<exists>(k, v)\<in>set M. \<not> holdsNoString v \<and> encodeURIComponent (ToString v) = Inl e"
    by blast
next
  assume "\<forall>(k, v)\<in>set M. holdsNoString v \<or> encodable v"
  then have "\<forall>e\<in>set M. encodable (snd e)"
    using holdsNoString_encodable by fastforce
  from fillPath_loop_fold[OF this]
  show "fillPath T (Some M)
      = Inr (fold (\<lambda>(k, v) path. replaceFirst (placeholder k) (encoded v) path) M T)"
    by (simp only: fillPath_Some)
next
  show "fillPath (str ''/pet/{petId}'') (Some [(str ''petId'', JSNumber 1)]) = Inr (str ''/pet/1'')"
    by code_simp
qed

text \<open>
  An instance with a string and a Number of 22 digits in one map: the string form of the
  Number has an exponent, and its plus sign is percent-encoded.
\<close>

theorem fillPath_nonString_coerced_witness:
  "holdsNoString (JSDouble (Finite 1 22))
   \<and> ToString (JSDouble (Finite 1 22)) = str ''1e+21''
   \<and> fillPath (str ''/pet/{id}/{name}'')
       (Some [(str ''id'', JSDouble (Finite 1 22)), (str ''name'', JSString (str ''a b''))])
     = Inr (str ''/pet/1e%2B21/a%20b'')"
proof -
  let ?T = "str ''/pet/{id}/{name}''"
  let ?M = "[(str ''id'', JSDouble (Finite 1 22)), (str ''name'', JSString (str ''a b''))]"
  have h: "\<forall>(k, v)\<in>set ?M. holdsNoString v \<or> encodable v" by code_simp
  have f: "fold (\<lambda>(k, v) path. replaceFirst (placeholder k) (encoded v) path) ?M ?T
             = str ''/pet/1e%2B21/a%20b''"
    by code_simp
  from fillPath_nonString_coerced[of "JSDouble (Finite 1 22)" ?T ?M] h
  have "fillPath ?T (Some ?M)
          = Inr (fold (\<lambda>(k, v) path. replaceFirst (placeholder k) (encoded v) path) ?M ?T)"
    by blast
  with f have r: "fillPath ?T (Some ?M) = Inr (str ''/pet/1e%2B21/a%20b'')" by (simp only:)
  have n: "holdsNoString (JSDouble (Finite 1 22))" by simp
  have s: "ToString (JSDouble (Finite 1 22)) = str ''1e+21''" by code_simp
  from n s r show ?thesis by (intro conjI)
qed

end
